theory Spec2Isabelle
  imports Complex_Main "HOL-Library.Log_Nat" "HOL-Library.Signed_Division"
begin

section \<open>JavaScript numbers\<close>

text \<open>
  A JavaScript number is an IEEE 754 binary64 value. Every finite one is a rational, and
  the result of \<open>*\<close>, \<open>/\<close>, \<open>+\<close> or \<open>-\<close> is the exact result rounded
  to the nearest value with a 53-bit significand, ties to the even significand. \<open>fl\<close>
  is that rounding. The exponent is left unbounded (no overflow to Infinity, no subnormal
  numbers): the durations, frame counts and gains of the player are far from both ends of
  the range. \<open>Math.ceil\<close>, \<open>Math.floor\<close>, \<open>Math.min\<close> and \<open>%\<close> are exact.
\<close>

text \<open>The position of the leading bit: \<open>2 powi expo x \<le> x < 2 powi (expo x + 1)\<close> for \<open>0 < x\<close>.\<close>

definition expo :: "rat \<Rightarrow> int" where
  "expo x = (case quotient_of x of (p, q) \<Rightarrow>
     (let d = bitlen p - bitlen q in if 2 powi d \<le> x then d else d - 1))"

text \<open>Rounding to the nearest integer, ties to even.\<close>

definition rne :: "rat \<Rightarrow> int" where
  "rne m = (let f = \<lfloor>m\<rfloor>; r = m - of_int f in
     if r < 1 / 2 then f else if 1 / 2 < r then f + 1 else if even f then f else f + 1)"

definition fl :: "rat \<Rightarrow> rat" where
  "fl x = (if x = 0 then 0
     else if 0 < x then of_int (rne (x / 2 powi (expo x - 52))) * 2 powi (expo x - 52)
     else - (of_int (rne (- x / 2 powi (expo (- x) - 52))) * 2 powi (expo (- x) - 52)))"

definition js_mul :: "rat \<Rightarrow> rat \<Rightarrow> rat" where
  "js_mul x y = fl (x * y)"

definition js_add :: "rat \<Rightarrow> rat \<Rightarrow> rat" where
  "js_add x y = fl (x + y)"

definition js_sub :: "rat \<Rightarrow> rat \<Rightarrow> rat" where
  "js_sub x y = fl (x - y)"

text \<open>
  Division by zero gives Infinity or NaN in JavaScript, which are not finite numbers:
  \<open>None\<close> stands for them.
\<close>

definition js_div :: "rat \<Rightarrow> rat \<Rightarrow> rat option" where
  "js_div x y = (if y = 0 then None else Some (fl (x / y)))"

section \<open>The frame arithmetic of exportToMp4 (src/components/Player.tsx)\<close>

text \<open>
  Lines 162 to 165: \<open>sceneDuration = audioBuffer.duration / videoUrls.length\<close>,
  \<open>fps = 30\<close>, \<open>totalFrames = Math.ceil(audioBuffer.duration * fps)\<close>,
  \<open>framesPerScene = Math.ceil(sceneDuration * fps)\<close>. The argument \<open>n\<close> is
  \<open>videoUrls.length\<close>, which the guard of line 152 makes positive there.
\<close>

definition fps :: rat where
  "fps = 30"

definition sceneDuration :: "rat \<Rightarrow> nat \<Rightarrow> rat option" where
  "sceneDuration d n = js_div d (of_nat n)"

definition totalFrames :: "rat \<Rightarrow> int" where
  "totalFrames d = \<lceil>js_mul d fps\<rceil>"

definition framesPerScene :: "rat \<Rightarrow> nat \<Rightarrow> int option" where
  "framesPerScene d n = map_option (\<lambda>sd. \<lceil>js_mul sd fps\<rceil>) (sceneDuration d n)"

text \<open>
  Line 243: \<open>newScene = Math.min(Math.floor(frame / framesPerScene), videoUrls.length - 1)\<close>.
\<close>

definition newScene :: "nat \<Rightarrow> int \<Rightarrow> nat \<Rightarrow> int option" where
  "newScene frame fpS n =
     map_option (\<lambda>q. min \<lfloor>q\<rfloor> (int n - 1)) (js_div (of_nat frame) (of_int fpS))"

text \<open>
  Lines 257 to 259: \<open>frameInScene = frame % framesPerScene\<close> (the remainder takes the
  sign of the dividend, and is NaN for a zero divisor),
  \<open>transitionFrames = Math.min(fps * 0.7, framesPerScene / 2)\<close>,
  \<open>transitionProgress = Math.min(frameInScene / transitionFrames, 1)\<close>.
\<close>

definition frameInScene :: "nat \<Rightarrow> int \<Rightarrow> int option" where
  "frameInScene frame fpS = (if fpS = 0 then None else Some (int frame smod fpS))"

definition transitionFrames :: "int \<Rightarrow> rat" where
  "transitionFrames fpS = min (js_mul fps (fl (7 / 10))) (fl (of_int fpS / 2))"

definition transitionProgress :: "int \<Rightarrow> rat \<Rightarrow> rat option" where
  "transitionProgress fis tf = map_option (\<lambda>q. min q 1) (js_div (of_int fis) tf)"

text \<open>
  Lines 264 to 279: what the transition sets on the canvas context before the draw:
  \<open>fade\<close> sets the alpha, \<open>slide\<close> translates by \<open>(1 - progress) * canvas.width\<close>,
  \<open>zoom\<close> scales by \<open>0.8 + 0.2 * progress\<close> and sets the alpha.
\<close>

datatype TransitionType = fade | slide | zoom

record effect =
  globalAlpha :: rat
  translateX :: rat
  scale :: rat

definition transition_effect :: "TransitionType \<Rightarrow> rat \<Rightarrow> rat \<Rightarrow> effect" where
  "transition_effect tt p width =
     (case tt of
        fade \<Rightarrow> \<lparr>globalAlpha = p, translateX = 0, scale = 1\<rparr>
      | slide \<Rightarrow> \<lparr>globalAlpha = 1, translateX = js_mul (js_sub 1 p) width, scale = 1\<rparr>
      | zoom \<Rightarrow> \<lparr>globalAlpha = p, translateX = 0,
                 scale = js_add (fl (8 / 10)) (js_mul (fl (2 / 10)) p)\<rparr>)"

text \<open>One pass of the frame loop (lines 242 to 259), and the loop over the frame numbers.\<close>

record frame_state =
  scene :: int
  inScene :: int
  progress :: rat

definition export_frame :: "rat \<Rightarrow> nat \<Rightarrow> nat \<Rightarrow> frame_state option" where
  "export_frame d n frame =
     (case framesPerScene d n of None \<Rightarrow> None
      | Some fpS \<Rightarrow>
     (case newScene frame fpS n of None \<Rightarrow> None
      | Some currentScene \<Rightarrow>
     (case frameInScene frame fpS of None \<Rightarrow> None
      | Some fis \<Rightarrow>
     (case transitionProgress fis (transitionFrames fpS) of None \<Rightarrow> None
      | Some p \<Rightarrow> Some \<lparr>scene = currentScene, inScene = fis, progress = p\<rparr>))))"

fun render_frames :: "rat \<Rightarrow> nat \<Rightarrow> nat list \<Rightarrow> frame_state list option" where
  "render_frames d n [] = Some []"
| "render_frames d n (frame # rest) =
     (case export_frame d n frame of None \<Rightarrow> None
      | Some fr \<Rightarrow> map_option ((#) fr) (render_frames d n rest))"

section \<open>The scene timeline of the specification\<close>

text \<open>
  Modelled from the spec: \<open>sceneWindowFor\<close> and \<open>resolve\<close> are functions of the
  specification (section 4.2), not of the source, which only computes
  \<open>sceneDuration = audioBuffer.duration / videoUrls.length\<close> (Player.tsx, lines 115
  and 162). The spec gives "even split, start = index * totalDuration / sceneCount", each
  window half-open and of length \<open>totalDuration / sceneCount\<close>, and a \<open>resolve\<close> that
  returns the active index and the fraction within the scene, "clamped to last scene at
  position == totalDuration". They are written here in exact rational arithmetic.
\<close>

definition sceneWindowFor :: "nat \<Rightarrow> rat \<Rightarrow> nat \<Rightarrow> rat \<times> rat" where
  "sceneWindowFor index totalDuration sceneCount =
     (let start = of_nat index * totalDuration / of_nat sceneCount
      in (start, start + totalDuration / of_nat sceneCount))"

definition in_window :: "rat \<Rightarrow> rat \<times> rat \<Rightarrow> bool" where
  "in_window t w = (fst w \<le> t \<and> t < snd w)"

definition resolve :: "rat \<Rightarrow> nat \<Rightarrow> rat \<Rightarrow> nat \<times> rat" where
  "resolve position sceneCount totalDuration =
     (let len = totalDuration / of_nat sceneCount;
          activeIndex = min (nat \<lfloor>position / len\<rfloor>) (sceneCount - 1)
      in (activeIndex, (position - fst (sceneWindowFor activeIndex totalDuration sceneCount)) / len))"

section \<open>The browser objects the player drives\<close>

text \<open>
  The player is a React component. Its handlers run one at a time on the event loop; an
  \<open>await\<close> hands control back until its promise settles. A handler is a function from
  the state before to the state after; how an \<open>async\<close> handler leaves is an
  \<open>outcome\<close>: it returns, it throws (the state at the throw is kept), or it stays
  suspended for ever on a promise that never settles.
\<close>

datatype js_error = InvalidStateError | NotSupportedError | TypeError | MediaError | CanvasError

datatype 's outcome = Return 's | Throw js_error 's | Pending 's

datatype src_status = Unstarted | Started | Stopped

datatype audio_asset = Narration | Background

datatype destination = Speakers | CaptureSink

datatype ctx_state = Running | Closed

datatype rec_state = Inactive | Recording

text \<open>
  What the component does to the outside, in the order it does it: the calls of
  \<open>setCurrentIndex\<close> and \<open>setCurrentVideoIndex\<close>, \<open>play()\<close> and \<open>pause()\<close> on a
  video element, \<open>start()\<close> and a successful \<open>stop()\<close> on an audio source,
  \<open>close()\<close> on an audio context, \<open>start()\<close> and \<open>stop()\<close> on a recorder,
  \<open>console.error\<close>, \<open>alert\<close>, and the click on the download link.
\<close>

datatype event =
    SetIndex int
  | VideoPlay nat
  | VideoPause nat
  | SourceStart nat
  | SourceStop nat
  | ContextClose nat
  | RecorderStart nat
  | RecorderStop nat
  | ConsoleError
  | Alert
  | Download

text \<open>
  An \<open>AudioBufferSourceNode\<close> with the gain it is connected through, the destination it
  reaches and the audio context that made it; a video element; a decoded audio buffer, of
  which the player reads the duration only.
\<close>

record source =
  asset :: audio_asset
  looped :: bool
  gain :: rat
  dest :: destination
  ctx :: nat
  status :: src_status

record video =
  paused :: bool
  currentTime :: rat

record AudioBuffer =
  duration :: rat

text \<open>
  What differs from one browser to the next and from one asset to the next, taken as a
  parameter of the handlers: whether \<open>stop()\<close> on a source that has already stopped
  throws \<open>InvalidStateError\<close> (older engines, among them the prefixed
  \<open>webkitAudioContext\<close> the player falls back to, refuse a second \<open>stop()\<close>; the
  current Web Audio specification allows it), which recording formats
  \<open>MediaRecorder\<close> supports, whether a canvas gives a 2d context, and whether the
  image or clip at a URL decodes (\<open>onload\<close>, \<open>onloadeddata\<close> and later \<open>onended\<close>
  fire) or fails (\<open>onerror\<close> fires).
\<close>

record browser =
  repeat_stop_throws :: bool
  mp4_supported :: bool
  vp9_supported :: bool
  canvas_2d :: bool
  decodes :: "string \<Rightarrow> bool"

text \<open>
  The audio contexts, audio sources and recorders made so far (a handle is an index into
  the list), and the trace of events.
\<close>

record page =
  contexts :: "ctx_state list"
  sources :: "source list"
  recorders :: "rec_state list"
  trace :: "event list"

definition emit :: "event \<Rightarrow> 'a page_scheme \<Rightarrow> 'a page_scheme" where
  "emit e s = s\<lparr>trace := trace s @ [e]\<rparr>"

definition new_context :: "'a page_scheme \<Rightarrow> nat \<times> 'a page_scheme" where
  "new_context s = (length (contexts s), s\<lparr>contexts := contexts s @ [Running]\<rparr>)"

definition close_context :: "nat \<Rightarrow> 'a page_scheme \<Rightarrow> 'a page_scheme" where
  "close_context c s = emit (ContextClose c) (s\<lparr>contexts := (contexts s)[c := Closed]\<rparr>)"

definition createBufferSource ::
  "audio_asset \<Rightarrow> bool \<Rightarrow> rat \<Rightarrow> destination \<Rightarrow> nat \<Rightarrow> 'a page_scheme \<Rightarrow> nat \<times> 'a page_scheme" where
  "createBufferSource a l g d c s =
     (length (sources s),
      s\<lparr>sources := sources s @
         [\<lparr>asset = a, looped = l, gain = g, dest = d, ctx = c, status = Unstarted\<rparr>]\<rparr>)"

definition start_source :: "nat \<Rightarrow> 'a page_scheme \<Rightarrow> 'a page_scheme" where
  "start_source i s =
     emit (SourceStart i) (s\<lparr>sources := (sources s)[i := (sources s ! i)\<lparr>status := Started\<rparr>]\<rparr>)"

text \<open>
  \<open>stop()\<close> throws on a source that was never started, stops one that plays, and on one
  that has already stopped does what the browser does. A handle is always the index of a
  source that exists: the first branch is for totality only.
\<close>

definition stop_source :: "browser \<Rightarrow> nat \<Rightarrow> 'a page_scheme \<Rightarrow> js_error + 'a page_scheme" where
  "stop_source b i s =
     (if length (sources s) \<le> i then Inl TypeError
      else case status (sources s ! i) of
        Unstarted \<Rightarrow> Inl InvalidStateError
      | Started \<Rightarrow>
          Inr (emit (SourceStop i) (s\<lparr>sources := (sources s)[i := (sources s ! i)\<lparr>status := Stopped\<rparr>]\<rparr>))
      | Stopped \<Rightarrow> if repeat_stop_throws b then Inl InvalidStateError else Inr s)"

text \<open>A source that plays to its end stops by itself.\<close>

definition source_ends :: "nat \<Rightarrow> 'a page_scheme \<Rightarrow> 'a page_scheme" where
  "source_ends i s = s\<lparr>sources := (sources s)[i := (sources s ! i)\<lparr>status := Stopped\<rparr>]\<rparr>"

text \<open>A source is heard (or recorded) while it is started and its context is running.\<close>

definition sounding :: "'a page_scheme \<Rightarrow> nat \<Rightarrow> bool" where
  "sounding s i =
     (i < length (sources s) \<and> status (sources s ! i) = Started \<and>
      ctx (sources s ! i) < length (contexts s) \<and> contexts s ! ctx (sources s ! i) = Running)"

definition new_recorder :: "'a page_scheme \<Rightarrow> nat \<times> 'a page_scheme" where
  "new_recorder s = (length (recorders s), s\<lparr>recorders := recorders s @ [Inactive]\<rparr>)"

definition recorder_start :: "nat \<Rightarrow> 'a page_scheme \<Rightarrow> 'a page_scheme" where
  "recorder_start r s = emit (RecorderStart r) (s\<lparr>recorders := (recorders s)[r := Recording]\<rparr>)"

definition recorder_stop :: "nat \<Rightarrow> 'a page_scheme \<Rightarrow> 'a page_scheme" where
  "recorder_stop r s = emit (RecorderStop r) (s\<lparr>recorders := (recorders s)[r := Inactive]\<rparr>)"

text \<open>\<open>ref.current?.stop()\<close> and \<open>ref.current?.close()\<close>.\<close>

definition optional_stop :: "browser \<Rightarrow> nat option \<Rightarrow> 'a page_scheme \<Rightarrow> js_error + 'a page_scheme" where
  "optional_stop b r s = (case r of None \<Rightarrow> Inr s | Some i \<Rightarrow> stop_source b i s)"

definition optional_close :: "nat option \<Rightarrow> 'a page_scheme \<Rightarrow> 'a page_scheme" where
  "optional_close r s = (case r of None \<Rightarrow> s | Some c \<Rightarrow> close_context c s)"

text \<open>\<open>try { source.stop(); } catch (e) {}\<close>.\<close>

definition try_stop :: "browser \<Rightarrow> nat \<Rightarrow> 'a page_scheme \<Rightarrow> 'a page_scheme" where
  "try_stop b i s = (case stop_source b i s of Inl e \<Rightarrow> s | Inr t \<Rightarrow> t)"

section \<open>What the two Player components share\<close>

text \<open>
  The repository holds two versions of the \<open>Player\<close> component:
  src/components/Player.tsx, with one element per scene, \<open>playAll\<close>, \<open>stopAll\<close> and
  \<open>exportToMp4\<close>; and src/unnamed/part_000, with one video element for the current clip,
  \<open>playAudio\<close>, \<open>stopAudio\<close>, \<open>togglePlay\<close>, \<open>handleVideoEnded\<close> and
  \<open>handleExport\<close>. Both have these props, state variables and refs.
\<close>

record player_base = page +
  videoUrls :: "string list"
  audioBuffer :: "AudioBuffer option"
  isPlaying :: bool
  isExporting :: bool
  audioContextRef :: "nat option"
  narrationSourceRef :: "nat option"
  bgmSourceRef :: "nat option"
  bgmBuffer :: "AudioBuffer option"

text \<open>
  \<open>loadBgm\<close> (Player.tsx lines 37 to 49): fetch the track, decode it in a context of its
  own, keep the buffer, close the context; any failure goes to \<open>console.error\<close>. The
  argument is what the network and the decoder answer.
\<close>

datatype bgm_response = FetchFailed | DecodeFailed | Decoded AudioBuffer

definition loadBgm :: "bgm_response \<Rightarrow> 'a player_base_scheme \<Rightarrow> 'a player_base_scheme" where
  "loadBgm r s =
     (case r of
        FetchFailed \<Rightarrow> emit ConsoleError s
      | DecodeFailed \<Rightarrow> emit ConsoleError (snd (new_context s))
      | Decoded decoded \<Rightarrow> (let (c, s1) = new_context s in close_context c (s1\<lparr>bgmBuffer := Some decoded\<rparr>)))"

text \<open>The narration source of the running playback reaches the end of its buffer.\<close>

definition narration_ends :: "'a player_base_scheme \<Rightarrow> 'a player_base_scheme" where
  "narration_ends s = (case narrationSourceRef s of None \<Rightarrow> s | Some i \<Rightarrow> source_ends i s)"

definition modern :: browser where
  "modern = \<lparr>repeat_stop_throws = False, mp4_supported = False, vp9_supported = True,
             canvas_2d = True, decodes = (\<lambda>url. True)\<rparr>"

definition legacy :: browser where
  "legacy = \<lparr>repeat_stop_throws = True, mp4_supported = False, vp9_supported = True,
             canvas_2d = True, decodes = (\<lambda>url. True)\<rparr>"

section \<open>The scene player (src/components/Player.tsx)\<close>

record player = player_base +
  currentIndex :: int
  prevIndex :: int
  bgmVolume :: rat
  narrationVolume :: rat
  transitionType :: TransitionType
  videoRefs :: "video option list"
  frames :: "frame_state list"

text \<open>
  The component as first rendered (lines 23 to 35): a video element, and so an entry of
  \<open>videoRefs\<close>, for every URL that is not an image (lines 330 to 352). \<open>frames\<close> is
  what the last export drew on its canvas.
\<close>

definition isImage :: "string \<Rightarrow> bool" where
  "isImage url = (take 10 url = ''data:image'')"

definition mount :: "string list \<Rightarrow> AudioBuffer option \<Rightarrow> player" where
  "mount urls narration =
     \<lparr>contexts = [], sources = [], recorders = [], trace = [],
      videoUrls = urls, audioBuffer = narration, isPlaying = False, isExporting = False,
      audioContextRef = None, narrationSourceRef = None, bgmSourceRef = None, bgmBuffer = None,
      currentIndex = 0, prevIndex = - 1, bgmVolume = fl (15 / 100), narrationVolume = 1,
      transitionType = fade,
      videoRefs = map (\<lambda>url. if isImage url then None else Some \<lparr>paused = True, currentTime = 0\<rparr>) urls,
      frames = []\<rparr>"

text \<open>
  \<open>stopAll\<close> (lines 137 to 149). The two \<open>stop()\<close> calls are not guarded: an exception
  of the first leaves the function before anything else is done.
\<close>

fun reset_videos :: "nat \<Rightarrow> video option list \<Rightarrow> video option list \<times> event list" where
  "reset_videos i [] = ([], [])"
| "reset_videos i (None # vs) = (let (ws, es) = reset_videos (Suc i) vs in (None # ws, es))"
| "reset_videos i (Some v # vs) =
     (let (ws, es) = reset_videos (Suc i) vs
      in (Some (v\<lparr>paused := True, currentTime := 0\<rparr>) # ws, VideoPause i # es))"

definition stopAll :: "browser \<Rightarrow> player \<Rightarrow> player outcome" where
  "stopAll b s =
     (case optional_stop b (narrationSourceRef s) s of
        Inl e \<Rightarrow> Throw e s
      | Inr s1 \<Rightarrow>
     (case optional_stop b (bgmSourceRef s1) s1 of
        Inl e \<Rightarrow> Throw e s1
      | Inr s2 \<Rightarrow>
          (let s3 = optional_close (audioContextRef s2) s2;
               s4 = s3\<lparr>audioContextRef := None\<rparr>;
               (vs, es) = reset_videos 0 (videoRefs s4);
               s5 = s4\<lparr>videoRefs := vs, trace := trace s4 @ es\<rparr>
           in Return (s5\<lparr>isPlaying := False\<rparr>))))"

text \<open>
  \<open>playAll\<close> (lines 82 to 135). \<open>playAll_start\<close> is the part after the guard and before
  the loop (lines 85 to 112). \<open>playAll_loop\<close> is the loop of lines 117 to 132: each
  pass sets the indices, plays the clip of the scene, waits \<open>sceneDuration * 1000\<close> ms
  and pauses the clip. What the other handlers do to the state during the wait of pass
  \<open>i\<close> is the argument \<open>during i\<close>; the loop leaves at a pass that finds
  \<open>audioContextRef.current\<close> empty. \<open>setIsPlaying(false)\<close> follows the loop.
\<close>

definition is_clip :: "string list \<Rightarrow> nat \<Rightarrow> player \<Rightarrow> bool" where
  "is_clip urls i s = (i < length (videoRefs s) \<and> videoRefs s ! i \<noteq> None \<and> \<not> isImage (urls ! i))"

definition video_play :: "nat \<Rightarrow> player \<Rightarrow> player" where
  "video_play i s =
     emit (VideoPlay i)
       (s\<lparr>videoRefs := (videoRefs s)[i := map_option (\<lambda>v. v\<lparr>currentTime := 0, paused := False\<rparr>) (videoRefs s ! i)]\<rparr>)"

definition video_pause :: "nat \<Rightarrow> player \<Rightarrow> player" where
  "video_pause i s =
     emit (VideoPause i)
       (s\<lparr>videoRefs := (videoRefs s)[i := map_option (\<lambda>v. v\<lparr>paused := True\<rparr>) (videoRefs s ! i)]\<rparr>)"

definition playAll_start :: "browser \<Rightarrow> player \<Rightarrow> player outcome" where
  "playAll_start b s =
     (case stopAll b s of
        Throw e s' \<Rightarrow> Throw e s'
      | Pending s' \<Rightarrow> Pending s'
      | Return s0 \<Rightarrow>
          (let s1 = emit (SetIndex 0) (s0\<lparr>isPlaying := True, currentIndex := 0, prevIndex := - 1\<rparr>);
               (c, s2) = new_context s1;
               s3 = s2\<lparr>audioContextRef := Some c\<rparr>;
               (narrSource, s4) = createBufferSource Narration False (narrationVolume s3) Speakers c s3;
               s5 = (start_source narrSource s4)\<lparr>narrationSourceRef := Some narrSource\<rparr>
           in Return
                (if bgmBuffer s5 = None then s5
                 else (let (bgmSource, t) = createBufferSource Background True (bgmVolume s5) Speakers c s5
                       in (start_source bgmSource t)\<lparr>bgmSourceRef := Some bgmSource\<rparr>))))"

function playAll_loop :: "(nat \<Rightarrow> player \<Rightarrow> player) \<Rightarrow> string list \<Rightarrow> nat \<Rightarrow> player \<Rightarrow> player" where
  "playAll_loop during urls i s =
     (if i < length urls then
        (if audioContextRef s = None then s
         else
           (let s1 = emit (SetIndex (int i))
                       (s\<lparr>prevIndex := (if 0 < i then int i - 1 else - 1), currentIndex := int i\<rparr>);
                s2 = (if is_clip urls i s1 then video_play i s1 else s1);
                s3 = during i s2;
                s4 = (if is_clip urls i s1 then video_pause i s3 else s3)
            in playAll_loop during urls (Suc i) s4))
      else s)"
  by pat_completeness auto
termination
  by (relation "measure (\<lambda>(during, urls, i, s). length urls - i)") auto

definition playAll :: "browser \<Rightarrow> (nat \<Rightarrow> player \<Rightarrow> player) \<Rightarrow> player \<Rightarrow> player outcome" where
  "playAll b during s =
     (if audioBuffer s = None then Return s
      else case playAll_start b s of
        Throw e s' \<Rightarrow> Throw e s'
      | Pending s' \<Rightarrow> Pending s'
      | Return s1 \<Rightarrow> Return ((playAll_loop during (videoUrls s1) 0 s1)\<lparr>isPlaying := False\<rparr>))"

text \<open>
  \<open>exportToMp4\<close> (lines 151 to 323). \<open>export_job\<close> is the \<open>try\<close> block: the capture
  context and its sources (lines 171 to 190), the recorder, whose constructor throws
  \<open>NotSupportedError\<close> for a format the browser does not record (lines 198 to 201), the
  start of recorder and narration (lines 215 and 216), the loading of every asset (lines
  219 to 236: the promise of an asset settles on \<open>onload\<close> or \<open>onloadeddata\<close> only, so
  the job stays suspended at an asset that fails), the frame loop (lines 242 to 300; its
  first use of a missing 2d context throws), the stop of the recorder, the close of the
  context and the download (lines 302 to 315). \<open>exportToMp4\<close> adds the guard, the
  \<open>catch\<close> and the \<open>finally\<close>.
\<close>

definition export_job :: "browser \<Rightarrow> AudioBuffer \<Rightarrow> player \<Rightarrow> player outcome" where
  "export_job b buf s =
     (let (audioCtx, s1) = new_context s;
          (narrSource, s2) = createBufferSource Narration False (narrationVolume s1) CaptureSink audioCtx s1;
          s3 = (if bgmBuffer s2 = None then s2
                else (let (bgmSource, t) = createBufferSource Background True (bgmVolume s2) CaptureSink audioCtx s2
                      in start_source bgmSource t))
      in if \<not> vp9_supported b then Throw NotSupportedError s3
         else
           (let (mediaRecorder, s4) = new_recorder s3;
                s5 = recorder_start mediaRecorder s4;
                s6 = start_source narrSource s5
            in if \<not> list_all (decodes b) (videoUrls s6) then Pending s6
               else if \<not> canvas_2d b \<and> 0 < totalFrames (duration buf) then Throw TypeError s6
               else
                 (case render_frames (duration buf) (length (videoUrls s6))
                         [0 ..< nat (totalFrames (duration buf))] of
                    None \<Rightarrow> Throw TypeError s6
                  | Some fs \<Rightarrow>
                      Return (emit Download
                        (close_context audioCtx (recorder_stop mediaRecorder (s6\<lparr>frames := fs\<rparr>)))))))"

definition exportToMp4 :: "browser \<Rightarrow> player \<Rightarrow> player outcome" where
  "exportToMp4 b s =
     (case audioBuffer s of
        None \<Rightarrow> Return s
      | Some buf \<Rightarrow>
          if videoUrls s = [] then Return s
          else
            (case export_job b buf (s\<lparr>isExporting := True\<rparr>) of
               Pending t \<Rightarrow> Pending t
             | Throw e t \<Rightarrow> Return ((emit Alert (emit ConsoleError t))\<lparr>isExporting := False\<rparr>)
             | Return t \<Rightarrow> Return (t\<lparr>isExporting := False\<rparr>)))"

text \<open>
  The controls (lines 354 to 360 and 410 to 436): the PLAY/PAUSE button is disabled while
  exporting, the overlay is rendered only while neither playing nor exporting, the
  download button is disabled while exporting or playing. A click on a disabled or absent
  control does nothing.
\<close>

definition play_button :: "browser \<Rightarrow> (nat \<Rightarrow> player \<Rightarrow> player) \<Rightarrow> player \<Rightarrow> player outcome" where
  "play_button b during s =
     (if isExporting s then Return s
      else if isPlaying s then stopAll b s else playAll b during s)"

definition play_overlay :: "browser \<Rightarrow> (nat \<Rightarrow> player \<Rightarrow> player) \<Rightarrow> player \<Rightarrow> player outcome" where
  "play_overlay b during s =
     (if \<not> isPlaying s \<and> \<not> isExporting s then playAll b during s else Return s)"

definition download_button :: "browser \<Rightarrow> player \<Rightarrow> player outcome" where
  "download_button b s =
     (if isExporting s \<or> isPlaying s then Return s else exportToMp4 b s)"

section \<open>The single-clip player (src/unnamed/part_000)\<close>

datatype export_format = webm | mp4

datatype export_resolution = r720p | r1080p

record clip_player = player_base +
  currentVideoIndex :: nat
  isExportMenuOpen :: bool
  exportProgress :: int
  exportFormat :: export_format
  exportResolution :: export_resolution
  videoRef :: "video option"
  isBgmLoading :: bool

text \<open>
  \<open>currentVideoUrl = videoUrls[currentVideoIndex] || null\<close> (line 290): the empty
  string stands for \<open>null\<close>, as both are falsy. The component as mounted (lines 14
  to 33) has a video element when that URL is not empty (line 314), and the effect of
  lines 62 to 68 has set the export format: \<open>mp4\<close> where
  \<open>MediaRecorder.isTypeSupported('video/mp4')\<close> holds, \<open>webm\<close> elsewhere.
\<close>

definition currentVideoUrl :: "string list \<Rightarrow> nat \<Rightarrow> string" where
  "currentVideoUrl urls i = (if i < length urls then urls ! i else [])"

definition mount' :: "browser \<Rightarrow> string list \<Rightarrow> AudioBuffer option \<Rightarrow> clip_player" where
  "mount' b urls narration =
     \<lparr>contexts = [], sources = [], recorders = [], trace = [],
      videoUrls = urls, audioBuffer = narration, isPlaying = False, isExporting = False,
      audioContextRef = None, narrationSourceRef = None, bgmSourceRef = None, bgmBuffer = None,
      currentVideoIndex = 0, isExportMenuOpen = False, exportProgress = 0,
      exportFormat = (if mp4_supported b then mp4 else webm),
      exportResolution = r720p,
      videoRef = (if currentVideoUrl urls 0 \<noteq> [] then Some \<lparr>paused = True, currentTime = 0\<rparr> else None),
      isBgmLoading = True\<rparr>"

text \<open>\<open>loadBgm\<close> of this version (lines 37 to 51) has a \<open>finally\<close> that clears the loading flag.\<close>

definition loadBgm' :: "bgm_response \<Rightarrow> clip_player \<Rightarrow> clip_player" where
  "loadBgm' r s = (loadBgm r s)\<lparr>isBgmLoading := False\<rparr>"

text \<open>\<open>videoRef.current?.play()\<close> and \<open>videoRef.current?.pause()\<close>.\<close>

definition ref_play :: "clip_player \<Rightarrow> clip_player" where
  "ref_play s =
     (case videoRef s of None \<Rightarrow> s
      | Some v \<Rightarrow> emit (VideoPlay (currentVideoIndex s)) (s\<lparr>videoRef := Some (v\<lparr>paused := False\<rparr>)\<rparr>))"

definition ref_pause :: "clip_player \<Rightarrow> clip_player" where
  "ref_pause s =
     (case videoRef s of None \<Rightarrow> s
      | Some v \<Rightarrow> emit (VideoPause (currentVideoIndex s)) (s\<lparr>videoRef := Some (v\<lparr>paused := True\<rparr>)\<rparr>))"

text \<open>
  \<open>setCurrentVideoIndex\<close> with the render that follows it. The video element is keyed
  by \<open>currentVideoUrl\<close> (line 316): a new URL brings a new element, or none when the
  URL is missing or empty. The effect of
  lines 71 to 75 runs when the index has changed and plays the element when the player is
  playing.
\<close>

definition setCurrentVideoIndex :: "nat \<Rightarrow> clip_player \<Rightarrow> clip_player" where
  "setCurrentVideoIndex i s =
     (let s1 = emit (SetIndex (int i)) (s\<lparr>currentVideoIndex := i\<rparr>);
          s2 = (if currentVideoUrl (videoUrls s) i = currentVideoUrl (videoUrls s) (currentVideoIndex s)
                then s1
                else s1\<lparr>videoRef := (if currentVideoUrl (videoUrls s) i \<noteq> []
                                       then Some \<lparr>paused = True, currentTime = 0\<rparr> else None)\<rparr>)
      in if isPlaying s2 \<and> i \<noteq> currentVideoIndex s then ref_play s2 else s2)"

text \<open>\<open>handleVideoEnded\<close> (lines 77 to 87).\<close>

definition handleVideoEnded :: "clip_player \<Rightarrow> clip_player" where
  "handleVideoEnded s =
     (if 1 < length (videoUrls s)
      then setCurrentVideoIndex ((currentVideoIndex s + 1) mod length (videoUrls s)) s
      else ref_play s)"

text \<open>
  \<open>playAudio\<close> (lines 89 to 132); the narration goes to the destination without a gain
  node, the background through a gain of 0.12. \<open>narration_onended\<close> is the handler of
  lines 120 to 128, and \<open>narration_completes\<close> the event that runs it: the narration
  source of the playback reaches its end.
\<close>

definition playAudio :: "clip_player \<Rightarrow> clip_player" where
  "playAudio s =
     (if audioBuffer s = None then s
      else
        (let (c, s1) =
               (case audioContextRef s of
                  None \<Rightarrow> (let (c, t) = new_context s in (c, t\<lparr>audioContextRef := Some c\<rparr>))
                | Some c \<Rightarrow>
                    if c < length (contexts s) \<and> contexts s ! c = Closed
                    then (let (c', t) = new_context s in (c', t\<lparr>audioContextRef := Some c'\<rparr>))
                    else (c, s));
             (narrSource, s2) = createBufferSource Narration False 1 Speakers c s1;
             s3 = (if bgmBuffer s2 = None then s2
                   else (let (bgmSource, t) = createBufferSource Background True (fl (12 / 100)) Speakers c s2
                         in (start_source bgmSource t)\<lparr>bgmSourceRef := Some bgmSource\<rparr>))
         in (start_source narrSource s3)\<lparr>narrationSourceRef := Some narrSource\<rparr>))"

definition narration_onended :: "browser \<Rightarrow> clip_player \<Rightarrow> clip_player" where
  "narration_onended b s =
     (let s1 = ref_pause (s\<lparr>isPlaying := False\<rparr>);
          s2 = (case bgmSourceRef s1 of None \<Rightarrow> s1 | Some i \<Rightarrow> try_stop b i s1)
      in setCurrentVideoIndex 0 s2)"

definition narration_completes :: "browser \<Rightarrow> clip_player \<Rightarrow> clip_player" where
  "narration_completes b s = narration_onended b (narration_ends s)"

text \<open>
  \<open>stopAudio\<close> (lines 134 to 143) and \<open>togglePlay\<close> (lines 145 to 156) with the
  render that follows it. Starting calls \<open>play()\<close> on the video element (line 153), and
  the effect of lines 71 to 75, which runs when \<open>isPlaying\<close> has changed, calls it once
  more; after a stop that effect finds \<open>isPlaying\<close> false and does nothing.
\<close>

definition stopAudio :: "browser \<Rightarrow> clip_player \<Rightarrow> clip_player" where
  "stopAudio b s =
     (let s1 = (case narrationSourceRef s of None \<Rightarrow> s
                | Some i \<Rightarrow> (try_stop b i s)\<lparr>narrationSourceRef := None\<rparr>)
      in case bgmSourceRef s1 of None \<Rightarrow> s1
         | Some i \<Rightarrow> (try_stop b i s1)\<lparr>bgmSourceRef := None\<rparr>)"

definition togglePlay :: "browser \<Rightarrow> clip_player \<Rightarrow> clip_player" where
  "togglePlay b s =
     (if isPlaying s then (ref_pause (stopAudio b s))\<lparr>isPlaying := False\<rparr>
      else ref_play ((ref_play (playAudio s))\<lparr>isPlaying := True\<rparr>))"

text \<open>
  \<open>handleExport\<close> (lines 159 to 286). \<open>handleExport_start\<close> is what runs before the
  \<open>try\<close> block (lines 160 to 165), \<open>handleExport_job\<close> the \<open>try\<close> block: the canvas
  (lines 173 to 177), the capture context and its sources (lines 180 to 200), the recorder
  (lines 203 to 228), the clips played one after the other, each promise resolved by
  \<open>onended\<close> and rejected by \<open>onerror\<close>, with the progress set after every clip (lines
  239 to 263), then the stop of the recorder, the close of the context and the download
  (lines 265 to 278).
\<close>

fun play_clips :: "browser \<Rightarrow> nat \<Rightarrow> nat \<Rightarrow> string list \<Rightarrow> clip_player \<Rightarrow> clip_player outcome" where
  "play_clips b n i [] s = Return s"
| "play_clips b n i (url # rest) s =
     (if decodes b url
      then play_clips b n (Suc i) rest
             (s\<lparr>exportProgress := \<lfloor>js_mul (fl (of_nat (Suc i) / of_nat n)) 100 + 1 / 2\<rfloor>\<rparr>)
      else Throw MediaError s)"

definition handleExport_start :: "browser \<Rightarrow> clip_player \<Rightarrow> clip_player" where
  "handleExport_start b s =
     (let s1 = s\<lparr>isExportMenuOpen := False, isExporting := True, exportProgress := 0\<rparr>
      in if isPlaying s1 then togglePlay b s1 else s1)"

definition handleExport_job :: "browser \<Rightarrow> clip_player \<Rightarrow> clip_player outcome" where
  "handleExport_job b s =
     (if \<not> canvas_2d b then Throw CanvasError s
      else
        (let (offlineCtx, s1) = new_context s;
             s2 = (if audioBuffer s1 = None then s1
                   else (let (source, t) = createBufferSource Narration False 1 CaptureSink offlineCtx s1
                         in start_source source t));
             s3 = (if bgmBuffer s2 = None then s2
                   else (let (bgmSource, t) = createBufferSource Background True (fl (12 / 100)) CaptureSink offlineCtx s2
                         in start_source bgmSource t))
         in if \<not> (exportFormat s3 = mp4 \<and> mp4_supported b) \<and> \<not> vp9_supported b
            then Throw NotSupportedError s3
            else
              (let (recorder, s4) = new_recorder s3;
                   s5 = recorder_start recorder s4
               in case play_clips b (length (videoUrls s5)) 0 (videoUrls s5) s5 of
                    Throw e t \<Rightarrow> Throw e t
                  | Pending t \<Rightarrow> Pending t
                  | Return t \<Rightarrow> Return (emit Download (close_context offlineCtx (recorder_stop recorder t))))))"

definition handleExport :: "browser \<Rightarrow> clip_player \<Rightarrow> clip_player outcome" where
  "handleExport b s =
     (case handleExport_job b (handleExport_start b s) of
        Pending t \<Rightarrow> Pending t
      | Throw e t \<Rightarrow> Return ((emit Alert (emit ConsoleError t))\<lparr>isExporting := False\<rparr>)
      | Return t \<Rightarrow> Return (t\<lparr>isExporting := False\<rparr>))"

text \<open>
  The controls (lines 345 to 354 and 383 to 462): the play button is disabled while the
  background track loads or an export runs, the overlay is rendered only while neither
  playing nor exporting, the export menu opens only while no export runs, and the button
  that starts the export is inside the menu.
\<close>

definition toggle_button :: "browser \<Rightarrow> clip_player \<Rightarrow> clip_player" where
  "toggle_button b s = (if isBgmLoading s \<or> isExporting s then s else togglePlay b s)"

definition toggle_overlay :: "browser \<Rightarrow> clip_player \<Rightarrow> clip_player" where
  "toggle_overlay b s = (if \<not> isPlaying s \<and> \<not> isExporting s then togglePlay b s else s)"

definition export_menu_button :: "clip_player \<Rightarrow> clip_player" where
  "export_menu_button s = (if isExporting s then s else s\<lparr>isExportMenuOpen := \<not> isExportMenuOpen s\<rparr>)"

definition export_start_button :: "browser \<Rightarrow> clip_player \<Rightarrow> clip_player outcome" where
  "export_start_button b s = (if isExportMenuOpen s then handleExport b s else Return s)"

section \<open>Reading an outcome\<close>

fun state_of :: "'s outcome \<Rightarrow> 's" where
  "state_of (Return s) = s"
| "state_of (Throw e s) = s"
| "state_of (Pending s) = s"

fun thrown :: "'s outcome \<Rightarrow> js_error option" where
  "thrown (Return s) = None"
| "thrown (Throw e s) = Some e"
| "thrown (Pending s) = None"

fun returns :: "'s outcome \<Rightarrow> bool" where
  "returns (Return s) = True"
| "returns (Throw e s) = False"
| "returns (Pending s) = False"

fun pending :: "'s outcome \<Rightarrow> bool" where
  "pending (Return s) = False"
| "pending (Throw e s) = False"
| "pending (Pending s) = True"

section \<open>Example states\<close>

text \<open>
  A scene player with two clips around an image and a single-clip player with two clips,
  each with a narration of a tenth of a second and a decoded background track; and the
  same players while they play. The single-clip player was mounted in a browser that does
  not record \<open>mp4\<close>, as \<open>modern\<close>, \<open>legacy\<close> and \<open>broken_clip\<close> are.
\<close>

definition example_scenes :: player where
  "example_scenes =
     loadBgm (Decoded \<lparr>duration = 60\<rparr>)
       (mount [''a.mp4'', ''data:image/png;base64,AAAA'', ''b.mp4''] (Some \<lparr>duration = 1 / 10\<rparr>))"

definition example_clips :: clip_player where
  "example_clips =
     loadBgm' (Decoded \<lparr>duration = 60\<rparr>) (mount' modern [''a.mp4'', ''b.mp4''] (Some \<lparr>duration = 1 / 10\<rparr>))"

definition scenes_playing :: player where
  "scenes_playing = state_of (playAll_start modern example_scenes)"

definition clips_playing :: clip_player where
  "clips_playing = togglePlay modern example_clips"

text \<open>A browser in which the clip \<open>b.mp4\<close> does not decode.\<close>

definition broken_clip :: browser where
  "broken_clip = \<lparr>repeat_stop_throws = False, mp4_supported = False, vp9_supported = True,
                  canvas_2d = True, decodes = (\<lambda>url. url \<noteq> ''b.mp4'')\<rparr>"

text \<open>A browser whose recorder takes \<open>mp4\<close> and not \<open>vp9\<close>.\<close>

definition mp4_only :: browser where
  "mp4_only = \<lparr>repeat_stop_throws = False, mp4_supported = True, vp9_supported = False,
                canvas_2d = True, decodes = (\<lambda>url. True)\<rparr>"

section \<open>Rounding: bounds, monotonicity, error\<close>

lemma bitlen_powi_bounds:
  assumes "0 < p"
  shows "(2::rat) powi (bitlen p - 1) \<le> of_int p" and "of_int p < (2::rat) powi (bitlen p)"
proof -
  have b: "1 \<le> bitlen p" using assms bitlen_eq_zero_iff[of p] bitlen_nonneg[of p] by linarith
  from bitlen_bounds[OF assms]
  have l: "2 ^ nat (bitlen p - 1) \<le> p" and u: "p < 2 ^ nat (bitlen p)" by simp_all
  have "(of_int (2 ^ nat (bitlen p - 1))::rat) \<le> of_int p" using l by (simp only: of_int_le_iff)
  then show "(2::rat) powi (bitlen p - 1) \<le> of_int p"
    using b by (simp add: power_int_nonneg_exp)
  have "(of_int p::rat) < of_int (2 ^ nat (bitlen p))" using u by (simp only: of_int_less_iff)
  then show "of_int p < (2::rat) powi (bitlen p)"
    using b by (simp add: power_int_nonneg_exp)
qed

lemma expo_bounds:
  assumes "0 < x"
  shows "2 powi (expo x) \<le> x" and "x < 2 powi (expo x + 1)"
proof -
  obtain p q where pq: "quotient_of x = (p, q)" by (cases "quotient_of x")
  have q: "0 < q" using quotient_of_denom_pos[OF pq] .
  have x: "x = of_int p / of_int q" using quotient_of_div[OF pq] .
  have p: "0 < p" using assms q x by (simp add: zero_less_divide_iff)
  define d where "d = bitlen p - bitlen q"
  note bp = bitlen_powi_bounds[OF p] and bq = bitlen_powi_bounds[OF q]
  have qpos: "(0::rat) < of_int q" using q by simp
  have up: "x < 2 powi (d + 1)"
  proof -
    have "of_int p < (2::rat) powi (bitlen p)" by (rule bp)
    also have "\<dots> = 2 powi (d + 1) * 2 powi (bitlen q - 1)"
      by (simp add: d_def flip: power_int_add)
    also have "\<dots> \<le> 2 powi (d + 1) * of_int q"
      by (intro mult_left_mono bq) simp
    finally show ?thesis using qpos by (simp add: x pos_divide_less_eq)
  qed
  have lo: "2 powi (d - 1) < x"
  proof -
    have "(2::rat) powi (d - 1) * of_int q < 2 powi (d - 1) * 2 powi (bitlen q)"
      by (intro mult_strict_left_mono bq) simp
    also have "\<dots> = 2 powi (bitlen p - 1)"
      by (simp add: d_def flip: power_int_add)
    also have "\<dots> \<le> of_int p" by (rule bp)
    finally show ?thesis using qpos by (simp add: x pos_less_divide_eq)
  qed
  have e: "expo x = (if 2 powi d \<le> x then d else d - 1)"
    by (simp add: expo_def pq d_def Let_def)
  show "2 powi (expo x) \<le> x" using lo by (simp add: e)
  show "x < 2 powi (expo x + 1)" using up by (auto simp add: e not_le)
qed

lemma expo_mono:
  assumes "0 < x" "x \<le> y"
  shows "expo x \<le> expo y"
proof -
  have "(2::rat) powi (expo x) \<le> x" using expo_bounds(1)[OF assms(1)] .
  also have "x \<le> y" by fact
  also have "y < 2 powi (expo y + 1)" using expo_bounds(2)[of y] assms by simp
  finally have "(2::rat) powi (expo x) < 2 powi (expo y + 1)" .
  then have "\<not> expo y + 1 \<le> expo x"
    using power_int_increasing[of "expo y + 1" "expo x" "2::rat"] by auto
  then show ?thesis by simp
qed

lemma rne_mono: "m \<le> m' \<Longrightarrow> rne m \<le> rne m'"
proof -
  assume le: "m \<le> m'"
  have f: "\<lfloor>m\<rfloor> \<le> \<lfloor>m'\<rfloor>" using le by (rule floor_mono)
  have a: "rne m \<le> \<lfloor>m\<rfloor> + 1" and b: "\<lfloor>m'\<rfloor> \<le> rne m'"
    by (simp_all add: rne_def Let_def)
  show ?thesis
  proof (cases "\<lfloor>m\<rfloor> = \<lfloor>m'\<rfloor>")
    case True
    then show ?thesis using le by (auto simp add: rne_def Let_def)
  next
    case False
    then show ?thesis using f a b by linarith
  qed
qed

lemma rne_of_int [simp]: "rne (of_int k) = k"
  by (simp add: rne_def)

lemma rne_close: "\<bar>of_int (rne m) - m\<bar> \<le> 1 / 2"
proof -
  have "of_int \<lfloor>m\<rfloor> \<le> m" "m < of_int \<lfloor>m\<rfloor> + 1" by linarith+
  then show ?thesis by (auto simp add: rne_def Let_def abs_le_iff)
qed

lemma mant_bounds:
  assumes "0 < x"
  shows "2 ^ 52 \<le> x / 2 powi (expo x - 52)" and "x / 2 powi (expo x - 52) < 2 ^ 53"
proof -
  have pos: "(0::rat) < 2 powi (expo x - 52)" by simp
  have "(2::rat) ^ 52 * 2 powi (expo x - 52) = 2 powi (expo x)"
    using power_int_add[of "2::rat" 52 "expo x - 52"] by simp
  then show "2 ^ 52 \<le> x / 2 powi (expo x - 52)"
    using expo_bounds(1)[OF assms] pos by (simp add: pos_le_divide_eq)
  have "(2::rat) ^ 53 * 2 powi (expo x - 52) = 2 powi (expo x + 1)"
    using power_int_add[of "2::rat" 53 "expo x - 52"] by (simp add: add.commute)
  then show "x / 2 powi (expo x - 52) < 2 ^ 53"
    using expo_bounds(2)[OF assms] pos by (simp add: pos_divide_less_eq)
qed

lemma rne_mant_bounds:
  assumes "0 < x"
  shows "2 ^ 52 \<le> rne (x / 2 powi (expo x - 52))" and "rne (x / 2 powi (expo x - 52)) \<le> 2 ^ 53"
proof -
  have "rne (of_int (2 ^ 52)) \<le> rne (x / 2 powi (expo x - 52))"
    by (rule rne_mono) (use mant_bounds(1)[OF assms] in simp)
  then show "2 ^ 52 \<le> rne (x / 2 powi (expo x - 52))" by (simp only: rne_of_int)
  have "rne (x / 2 powi (expo x - 52)) \<le> rne (of_int (2 ^ 53))"
    by (rule rne_mono) (use mant_bounds(2)[OF assms] in simp)
  then show "rne (x / 2 powi (expo x - 52)) \<le> 2 ^ 53" by (simp only: rne_of_int)
qed

lemma fl_pos_eq: "0 < x \<Longrightarrow> fl x = of_int (rne (x / 2 powi (expo x - 52))) * 2 powi (expo x - 52)"
  by (simp add: fl_def)

lemma fl_lower: 
  assumes "0 < x" shows "2 powi (expo x) \<le> fl x"
proof -
  have "(2::rat) powi (expo x) = 2 ^ 52 * 2 powi (expo x - 52)"
    using power_int_add[of "2::rat" 52 "expo x - 52"] by simp
  also have "\<dots> \<le> of_int (rne (x / 2 powi (expo x - 52))) * 2 powi (expo x - 52)"
  proof (rule mult_right_mono)
    have "(of_int (2 ^ 52)::rat) \<le> of_int (rne (x / 2 powi (expo x - 52)))"
      using rne_mant_bounds(1)[OF assms] by (simp only: of_int_le_iff)
    then show "(2::rat) ^ 52 \<le> of_int (rne (x / 2 powi (expo x - 52)))" by simp
  qed simp
  finally show ?thesis by (simp add: fl_pos_eq[OF assms])
qed

lemma fl_upper: 
  assumes "0 < x" shows "fl x \<le> 2 powi (expo x + 1)"
proof -
  have "of_int (rne (x / 2 powi (expo x - 52))) * 2 powi (expo x - 52) \<le> 2 ^ 53 * (2::rat) powi (expo x - 52)"
  proof (rule mult_right_mono)
    have "(of_int (rne (x / 2 powi (expo x - 52)))::rat) \<le> of_int (2 ^ 53)"
      using rne_mant_bounds(2)[OF assms] by (simp only: of_int_le_iff)
    then show "of_int (rne (x / 2 powi (expo x - 52))) \<le> (2::rat) ^ 53" by simp
  qed simp
  also have "\<dots> = 2 powi (expo x + 1)"
    using power_int_add[of "2::rat" 53 "expo x - 52"] by (simp add: add.commute)
  finally show ?thesis by (simp add: fl_pos_eq[OF assms])
qed

lemma fl_pos: "0 < x \<Longrightarrow> 0 < fl x"
proof -
  assume "0 < x"
  moreover have "(0::rat) < 2 powi (expo x)" by simp
  ultimately show ?thesis using fl_lower[of x] by linarith
qed

lemma fl_zero [simp]: "fl 0 = 0"
  by (simp add: fl_def)

lemma fl_mono_pos:
  assumes "0 < x" "x \<le> y"
  shows "fl x \<le> fl y"
proof -
  have y: "0 < y" using assms by simp
  have e: "expo x \<le> expo y" using expo_mono[OF assms] .
  show ?thesis
  proof (cases "expo x = expo y")
    case True
    have "x / 2 powi (expo y - 52) \<le> y / 2 powi (expo y - 52)"
      using assms(2) by (simp add: divide_right_mono)
    then have "rne (x / 2 powi (expo y - 52)) \<le> rne (y / 2 powi (expo y - 52))"
      by (rule rne_mono)
    then have "(of_int (rne (x / 2 powi (expo y - 52)))::rat) \<le> of_int (rne (y / 2 powi (expo y - 52)))"
      by (simp only: of_int_le_iff)
    then show ?thesis
      by (simp add: fl_pos_eq[OF assms(1)] fl_pos_eq[OF y] True mult_right_mono)
  next
    case False
    then have "expo x + 1 \<le> expo y" using e by simp
    then have "(2::rat) powi (expo x + 1) \<le> 2 powi (expo y)"
      by (intro power_int_increasing) simp_all
    then show ?thesis using fl_upper[OF assms(1)] fl_lower[OF y] by linarith
  qed
qed

lemma fl_mono: "0 \<le> x \<Longrightarrow> x \<le> y \<Longrightarrow> fl x \<le> fl y"
  using fl_mono_pos[of x y] fl_pos[of y] by (cases "x = 0"; cases "y = 0") auto

lemma fl_one [simp]: "fl 1 = 1"
  by (simp add: fl_def expo_def rne_def)

lemma fl_error:
  assumes "0 < x"
  shows "\<bar>fl x - x\<bar> \<le> x / 2 ^ 53"
proof -
  define s where "s = (2::rat) powi (expo x - 52)"
  have s: "0 < s" by (simp add: s_def)
  have "fl x - x = (of_int (rne (x / s)) - x / s) * s"
    using s by (simp add: fl_pos_eq[OF assms] s_def[symmetric] left_diff_distrib)
  then have "\<bar>fl x - x\<bar> = \<bar>of_int (rne (x / s)) - x / s\<bar> * s"
    using s by (simp add: abs_mult)
  also have "\<dots> \<le> (1 / 2) * s"
    using s by (intro mult_right_mono rne_close) simp
  also have "\<dots> = 2 powi (expo x) / 2 ^ 53"
    using power_int_add[of "2::rat" 52 "expo x - 52"] by (simp add: s_def)
  also have "\<dots> \<le> x / 2 ^ 53"
    using expo_bounds(1)[OF assms] by (simp add: divide_right_mono)
  finally show ?thesis .
qed
lemma fl_neg: "x < 0 \<Longrightarrow> fl x < 0"
proof -
  assume x: "x < 0"
  then have "fl x = - fl (- x)" by (simp add: fl_def)
  moreover have "0 < fl (- x)" using x by (intro fl_pos) simp
  ultimately show ?thesis by simp
qed

lemma fl_lower_bound: "0 < x \<Longrightarrow> x - x / 2 ^ 53 \<le> fl x"
  using fl_error[of x] by linarith

lemma fl_upper_bound: "0 < x \<Longrightarrow> fl x \<le> x + x / 2 ^ 53"
  using fl_error[of x] by linarith

lemma fl_of_int:
  assumes "0 < k" "k < 2 ^ 53"
  shows "fl (of_int k) = of_int k"
proof -
  let ?x = "of_int k :: rat"
  have x: "0 < ?x" using assms(1) by simp
  define e where "e = expo ?x"
  have lo: "2 powi e \<le> ?x" and hi: "?x < 2 powi (e + 1)"
    using expo_bounds[OF x] by (simp_all add: e_def)
  have e52: "e \<le> 52"
  proof (rule ccontr)
    assume "\<not> e \<le> 52"
    then have "53 \<le> e" by simp
    then have "(2::rat) powi 53 \<le> 2 powi e" by (intro power_int_increasing) simp_all
    then have "(2::rat) ^ 53 \<le> ?x" using lo by simp
    moreover have "?x < of_int (2 ^ 53)" using assms(2) by (simp only: of_int_less_iff)
    ultimately show False by simp
  qed
  have "?x / 2 powi (e - 52) = ?x * 2 powi (52 - e)"
    using power_int_minus[of "2::rat" "e - 52"] by (simp add: field_simps)
  also have "\<dots> = of_int (k * 2 ^ nat (52 - e))"
    using e52 by (simp add: power_int_nonneg_exp)
  finally have m: "?x / 2 powi (e - 52) = of_int (k * 2 ^ nat (52 - e))" .
  have "fl ?x = of_int (rne (?x / 2 powi (e - 52))) * 2 powi (e - 52)"
    using fl_pos_eq[OF x] by (simp add: e_def)
  also have "\<dots> = (?x / 2 powi (e - 52)) * 2 powi (e - 52)"
    by (simp only: m rne_of_int)
  also have "\<dots> = ?x" by simp
  finally show ?thesis .
qed

section \<open>The frame loop of the export\<close>

lemma totalFrames_pos_duration:
  assumes "0 < totalFrames dur" shows "0 < dur"
proof (rule ccontr)
  assume "\<not> 0 < dur"
  then have "dur * fps \<le> 0" by (simp add: fps_def)
  then have "fl (dur * fps) \<le> 0"
    using fl_neg[of "dur * fps"] by (cases "dur * fps = 0") auto
  then have "totalFrames dur \<le> 0" by (simp add: totalFrames_def js_mul_def ceiling_le_zero)
  with assms show False by simp
qed

lemma framesPerScene_pos:
  assumes "0 < dur" "1 \<le> n"
  obtains fpS where "framesPerScene dur n = Some fpS" "1 \<le> fpS"
proof -
  have n: "(0::rat) < of_nat n" using assms(2) by simp
  then have "0 < dur / of_nat n" using assms(1) by simp
  then have "0 < fl (dur / of_nat n)" by (rule fl_pos)
  then have "0 < fl (dur / of_nat n) * fps" by (simp add: fps_def)
  then have "0 < fl (fl (dur / of_nat n) * fps)" by (rule fl_pos)
  then have "1 \<le> \<lceil>fl (fl (dur / of_nat n) * fps)\<rceil>" by simp
  moreover have "framesPerScene dur n = Some \<lceil>fl (fl (dur / of_nat n) * fps)\<rceil>"
    using n by (simp add: framesPerScene_def sceneDuration_def js_div_def js_mul_def)
  ultimately show ?thesis using that by blast
qed

lemma newScene_Some:
  "fpS \<noteq> 0 \<Longrightarrow> newScene frame fpS n = Some (min \<lfloor>fl (of_nat frame / of_int fpS)\<rfloor> (int n - 1))"
  by (simp add: newScene_def js_div_def)

lemma newScene_mono:
  assumes "1 \<le> fpS" "f \<le> g"
  shows "min \<lfloor>fl (of_nat f / of_int fpS)\<rfloor> (int n - 1) \<le> min \<lfloor>fl (of_nat g / of_int fpS)\<rfloor> (int n - 1)"
proof -
  have p: "(0::rat) < of_int fpS" using assms(1) by simp
  have "(of_nat f::rat) / of_int fpS \<le> of_nat g / of_int fpS"
    using assms(2) p by (simp add: divide_right_mono)
  moreover have "(0::rat) \<le> of_nat f / of_int fpS" using p by simp
  ultimately have "fl (of_nat f / of_int fpS) \<le> fl (of_nat g / of_int fpS)" by (rule fl_mono[rotated])
  then have "\<lfloor>fl (of_nat f / of_int fpS)\<rfloor> \<le> \<lfloor>fl (of_nat g / of_int fpS)\<rfloor>" by (rule floor_mono)
  then show ?thesis unfolding min_def by auto
qed

text \<open>
  Claim C2. In an export job (the guard gives at least one scene), for frame numbers
  \<open>f \<le> g\<close> below \<open>totalFrames\<close>, the scene index
  \<open>min(floor(frame / framesPerScene), sceneCount - 1)\<close> is computed without a division
  by zero, the index of \<open>f\<close> is at most the index of \<open>g\<close>, and an index is at most
  \<open>sceneCount - 1\<close>. This holds in the double arithmetic of the code.
\<close>

theorem scene_index_bounded_monotone:
  assumes "1 \<le> n" and "f \<le> g" and "int g < totalFrames dur"
  shows "\<exists>fpS sf sg. framesPerScene dur n = Some fpS \<and>
           newScene f fpS n = Some sf \<and> newScene g fpS n = Some sg \<and>
           sf \<le> sg \<and> sg \<le> int n - 1"
proof -
  have "0 < totalFrames dur" using assms(3) by linarith
  then have d: "0 < dur" by (rule totalFrames_pos_duration)
  from framesPerScene_pos[OF d assms(1)] obtain fpS
    where fpS: "framesPerScene dur n = Some fpS" "1 \<le> fpS" by blast
  have nz: "fpS \<noteq> 0" using fpS(2) by simp
  show ?thesis
    using fpS(1) newScene_Some[OF nz] newScene_mono[OF fpS(2) assms(2)] by simp
qed

theorem scene_index_bounded_monotone_witness:
  "\<exists>fpS sf sg. framesPerScene 10 2 = Some fpS \<and>
     newScene 149 fpS 2 = Some sf \<and> newScene 150 fpS 2 = Some sg \<and>
     sf \<le> sg \<and> sg \<le> int 2 - 1"
proof -
  have h1: "(1::nat) \<le> 2" by simp
  have h2: "(149::nat) \<le> 150" by simp
  have h3: "int 150 < totalFrames 10" by code_simp
  show ?thesis by (rule scene_index_bounded_monotone[OF h1 h2 h3])
qed

lemma fps_07: "js_mul fps (fl (7 / 10)) = 21"
  by code_simp

lemma transitionFrames_pos:
  assumes "1 \<le> fpS" shows "0 < transitionFrames fpS"
proof -
  have "(0::rat) < of_int fpS / 2" using assms by simp
  then have "0 < fl (of_int fpS / 2)" by (rule fl_pos)
  then show ?thesis by (simp add: transitionFrames_def fps_07)
qed

lemma frameInScene_nonneg:
  assumes "1 \<le> fpS" shows "0 \<le> int f smod fpS"
  using assms by (simp add: smod_int_alt_def sgn_if)

lemma full_effect: "transition_effect tt 1 width = \<lparr>globalAlpha = 1, translateX = 0, scale = 1\<rparr>"
proof -
  have z: "js_add (fl (4 / 5)) (js_mul (fl (1 / 5)) 1) = 1" by code_simp
  have s: "js_mul (js_sub 1 1) width = 0" by (simp add: js_mul_def js_sub_def)
  show ?thesis by (cases tt) (simp_all add: transition_effect_def z s)
qed

lemma transitionProgress_range:
  assumes "0 < tf" "0 \<le> fis"
  obtains p where "transitionProgress fis tf = Some p" "0 \<le> p" "p \<le> 1" "tf \<le> of_int fis \<Longrightarrow> p = 1"
proof -
  let ?q = "fl (of_int fis / tf)"
  have q0: "0 \<le> ?q" using fl_mono[of 0 "of_int fis / tf"] assms by simp
  have q1: "1 \<le> ?q" if "tf \<le> of_int fis"
    using fl_mono[of 1 "of_int fis / tf"] assms that by (simp add: pos_le_divide_eq)
  have "transitionProgress fis tf = Some (min ?q 1)"
    using assms(1) by (simp add: transitionProgress_def js_div_def)
  moreover have "0 \<le> min ?q 1" using q0 by simp
  moreover have "min ?q 1 \<le> 1" by simp
  moreover have "tf \<le> of_int fis \<Longrightarrow> min ?q 1 = 1" using q1 by simp
  ultimately show ?thesis using that by blast
qed

text \<open>
  Claim C3. For every frame of an export job, the transition progress
  \<open>min(frameInScene / transitionFrames, 1)\<close>, with
  \<open>transitionFrames = min(fps * 0.7, framesPerScene / 2)\<close>, is computed without a
  division by zero and lies in \<open>[0, 1]\<close>; from \<open>frameInScene \<ge> transitionFrames\<close> on it
  is exactly 1, and then every transition draws the asset at alpha 1, offset 0 and
  scale 1. This holds in the double arithmetic of the code.
\<close>

theorem transition_progress_in_unit_interval:
  assumes "1 \<le> n" and "int f < totalFrames dur"
  shows "\<exists>fpS fis p. framesPerScene dur n = Some fpS \<and> frameInScene f fpS = Some fis \<and>
           transitionProgress fis (transitionFrames fpS) = Some p \<and> 0 \<le> p \<and> p \<le> 1 \<and>
           (transitionFrames fpS \<le> of_int fis \<longrightarrow>
              p = 1 \<and> transition_effect tt p width = \<lparr>globalAlpha = 1, translateX = 0, scale = 1\<rparr>)"
proof -
  have "0 < totalFrames dur" using assms(2) by linarith
  then have d: "0 < dur" by (rule totalFrames_pos_duration)
  from framesPerScene_pos[OF d assms(1)] obtain fpS
    where fpS: "framesPerScene dur n = Some fpS" "1 \<le> fpS" by blast
  have fis: "frameInScene f fpS = Some (int f smod fpS)"
    using fpS(2) by (simp add: frameInScene_def)
  from transitionProgress_range[OF transitionFrames_pos[OF fpS(2)] frameInScene_nonneg[OF fpS(2), of f]]
  obtain p where p: "transitionProgress (int f smod fpS) (transitionFrames fpS) = Some p"
    "0 \<le> p" "p \<le> 1" "transitionFrames fpS \<le> of_int (int f smod fpS) \<Longrightarrow> p = 1" by blast
  show ?thesis using fpS(1) fis p full_effect[of tt width] by auto
qed

theorem transition_progress_in_unit_interval_witness:
  "framesPerScene 10 2 = Some 150 \<and> frameInScene 149 150 = Some 149 \<and>
   transitionFrames 150 = 21 \<and> transitionProgress 149 21 = Some 1 \<and>
   transition_effect zoom 1 1080 = \<lparr>globalAlpha = 1, translateX = 0, scale = 1\<rparr>"
proof -
  have h1: "(1::nat) \<le> 2" by simp
  have h2: "int 149 < totalFrames 10" by code_simp
  have a: "framesPerScene 10 2 = Some 150" by code_simp
  have b: "frameInScene 149 150 = Some 149" by code_simp
  have c: "transitionFrames 150 = 21" by code_simp
  from transition_progress_in_unit_interval[OF h1 h2, of zoom 1080]
  obtain fpS fis p where A: "framesPerScene 10 2 = Some fpS"
    and B: "frameInScene 149 fpS = Some fis"
    and C: "transitionProgress fis (transitionFrames fpS) = Some p"
    and E: "transitionFrames fpS \<le> of_int fis \<longrightarrow>
           p = 1 \<and> transition_effect zoom p 1080 = \<lparr>globalAlpha = 1, translateX = 0, scale = 1\<rparr>"
    by blast
  have fpS: "fpS = 150" using A a by simp
  have fis: "fis = 149" using B b unfolding fpS by simp
  have "transitionFrames fpS \<le> of_int fis" unfolding fpS fis c by simp
  with E have F: "p = 1 \<and> transition_effect zoom p 1080 = \<lparr>globalAlpha = 1, translateX = 0, scale = 1\<rparr>"
    by (rule mp)
  have p: "p = 1" using F by (rule conjunct1)
  have "transition_effect zoom p 1080 = \<lparr>globalAlpha = 1, translateX = 0, scale = 1\<rparr>"
    using F by (rule conjunct2)
  then have "transition_effect zoom 1 1080 = \<lparr>globalAlpha = 1, translateX = 0, scale = 1\<rparr>"
    unfolding p .
  moreover have "transitionProgress 149 21 = Some 1"
    using C unfolding fpS fis c p .
  ultimately show ?thesis using a b c by blast
qed

lemma frames_gap:
  assumes d: "0 < dur" "dur \<le> 2 ^ 40" and n: "1 \<le> n"
    and P: "framesPerScene dur n = Some P"
  shows "totalFrames dur \<le> int n * P + 1"
proof -
  define N :: rat where "N = of_nat n"
  define u :: rat where "u = 1 / 2 ^ 53"
  define x where "x = dur * 30"
  define s where "s = fl (dur / N)"
  define y where "y = fl (s * 30)"
  have N: "0 < N" using n by (simp add: N_def)
  have u: "0 < u" by (simp add: u_def)
  have x: "0 < x" using d by (simp add: x_def)
  have Pdef: "P = \<lceil>y\<rceil>"
    using P N by (simp add: framesPerScene_def sceneDuration_def js_div_def js_mul_def
        fps_def y_def s_def N_def)
  have Tdef: "totalFrames dur = \<lceil>fl x\<rceil>"
    by (simp add: totalFrames_def js_mul_def fps_def x_def)
  have q: "0 < dur / N" using d N by simp
  have s_lo: "dur / N * (1 - u) \<le> s"
    using fl_lower_bound[OF q] by (simp add: s_def u_def right_diff_distrib)
  have s_pos: "0 < s" unfolding s_def using q by (rule fl_pos)
  then have s30: "0 < s * 30" by simp
  have y_lo: "s * 30 * (1 - u) \<le> y"
    using fl_lower_bound[OF s30] by (simp add: y_def u_def right_diff_distrib)
  have c: "0 \<le> 1 - u" by (simp add: u_def)
  have "dur / N * (1 - u) * 30 * (1 - u) \<le> s * 30 * (1 - u)"
    using s_lo c by (intro mult_right_mono) simp_all
  with y_lo have "dur / N * (1 - u) * 30 * (1 - u) \<le> y" by linarith
  then have "N * (dur / N * (1 - u) * 30 * (1 - u)) \<le> N * y"
    using N by (intro mult_left_mono) simp_all
  moreover have "N * (dur / N * (1 - u) * 30 * (1 - u)) = x * ((1 - u) * (1 - u))"
    using N by (simp add: x_def)
  ultimately have Ny: "x * ((1 - u) * (1 - u)) \<le> N * y" by simp
  have "(1 - u) * (1 - u) = 1 - 2 * u + u * u" by (simp add: algebra_simps)
  then have "1 - 2 * u \<le> (1 - u) * (1 - u)" using u by simp
  then have "x * (1 - 2 * u) \<le> x * ((1 - u) * (1 - u))"
    using x by (intro mult_left_mono) simp_all
  with Ny have Ny': "x - 2 * (x * u) \<le> N * y" by (simp add: algebra_simps)
  have "y \<le> of_int P" by (simp add: Pdef)
  then have "N * y \<le> N * of_int P" using N by (intro mult_left_mono) simp_all
  with Ny' have low: "x - 2 * (x * u) \<le> N * of_int P" by linarith
  have "of_int (totalFrames dur) < fl x + 1" by (simp add: Tdef) linarith
  moreover have "fl x \<le> x + x * u" using fl_upper_bound[OF x] by (simp add: u_def)
  ultimately have up: "of_int (totalFrames dur) < x + x * u + 1" by linarith
  have "x \<le> 30 * 2 ^ 40" using d(2) by (simp add: x_def)
  then have "x * u \<le> 30 * 2 ^ 40 * u" using u by (intro mult_right_mono) simp_all
  also have "\<dots> \<le> 1 / 3" by (simp add: u_def)
  finally have xu: "x * u \<le> 1 / 3" .
  have "of_int (totalFrames dur) < N * of_int P + 2" using up low xu by linarith
  then have "(of_int (totalFrames dur)::rat) < of_int (int n * P + 2)" by (simp add: N_def)
  then have "totalFrames dur < int n * P + 2" by (simp only: of_int_less_iff)
  then show ?thesis by simp
qed

lemma frames_product_bound:
  assumes d: "0 < dur" "dur \<le> 2 ^ 40" and n: "1 \<le> n" "n < 2 ^ 32"
    and P: "framesPerScene dur n = Some P"
  shows "of_nat n * (of_int P :: rat) < 2 ^ 47"
proof -
  define N :: rat where "N = of_nat n"
  define u :: rat where "u = 1 / 2 ^ 53"
  define x where "x = dur * 30"
  define s where "s = fl (dur / N)"
  define y where "y = fl (s * 30)"
  have N: "0 < N" using n by (simp add: N_def)
  have u: "0 < u" by (simp add: u_def)
  have x: "0 < x" using d by (simp add: x_def)
  have Pdef: "P = \<lceil>y\<rceil>"
    using P N by (simp add: framesPerScene_def sceneDuration_def js_div_def js_mul_def
        fps_def y_def s_def N_def)
  have q: "0 < dur / N" using d N by simp
  have s_hi: "s \<le> dur / N * (1 + u)"
    using fl_upper_bound[OF q] by (simp add: s_def u_def distrib_left)
  have s_pos: "0 < s" unfolding s_def using q by (rule fl_pos)
  then have s30: "0 < s * 30" by simp
  have y_hi: "y \<le> s * 30 * (1 + u)"
    using fl_upper_bound[OF s30] by (simp add: y_def u_def distrib_left)
  have c: "0 \<le> 1 + u" using u by simp
  have "s * 30 * (1 + u) \<le> dur / N * (1 + u) * 30 * (1 + u)"
    using s_hi c by (intro mult_right_mono) simp_all
  with y_hi have "y \<le> dur / N * (1 + u) * 30 * (1 + u)" by linarith
  then have "N * y \<le> N * (dur / N * (1 + u) * 30 * (1 + u))"
    using N by (intro mult_left_mono) simp_all
  moreover have "N * (dur / N * (1 + u) * 30 * (1 + u)) = x * ((1 + u) * (1 + u))"
    using N by (simp add: x_def)
  ultimately have Ny: "N * y \<le> x * ((1 + u) * (1 + u))" by simp
  have "(1 + u) * (1 + u) \<le> 2" by (simp add: u_def)
  then have "x * ((1 + u) * (1 + u)) \<le> x * 2" using x by (intro mult_left_mono) simp_all
  moreover have "x \<le> 30 * 2 ^ 40" using d(2) by (simp add: x_def)
  ultimately have Ny': "N * y \<le> 60 * 2 ^ 40" using Ny by linarith
  have "of_int P < y + 1" by (simp add: Pdef) linarith
  then have "N * of_int P < N * (y + 1)" using N by (intro mult_strict_left_mono) simp_all
  then have "N * of_int P < N * y + N" by (simp add: distrib_left)
  moreover have "N < 2 ^ 32"
  proof -
    have "(of_nat n :: rat) < of_nat (2 ^ 32)" using n(2) by (simp only: of_nat_less_iff)
    then show ?thesis by (simp add: N_def)
  qed
  ultimately have "N * of_int P < 60 * 2 ^ 40 + 2 ^ 32" using Ny' by linarith
  then show ?thesis by (simp add: N_def)
qed

lemma floor_below_count:
  assumes P: "1 \<le> P" and b: "of_nat n * (of_int P :: rat) < 2 ^ 53" and f: "int f < int n * P"
  shows "\<lfloor>fl (of_nat f / of_int P)\<rfloor> \<le> int n - 1"
proof (cases "f = 0")
  case True
  have "0 < int n * P" using f by linarith
  then have "1 \<le> n" using P by (cases "n = 0") auto
  then show ?thesis using True by simp
next
  case False
  define N :: rat where "N = of_nat n"
  define Q :: rat where "Q = of_int P"
  define u :: rat where "u = 1 / 2 ^ 53"
  define z where "z = of_nat f / Q"
  have Q: "0 < Q" using P by (simp add: Q_def)
  have z: "0 < z" using False Q by (simp add: z_def)
  have zQ: "z * Q = of_nat f" using Q by (simp add: z_def)
  have "int f + 1 \<le> int n * P" using f by simp
  then have "(of_int (int f + 1) :: rat) \<le> of_int (int n * P)" by (simp only: of_int_le_iff)
  then have fle: "of_nat f + 1 \<le> N * Q" by (simp add: N_def Q_def)
  have NQu: "N * Q * u < 1" using b by (simp add: N_def Q_def u_def)
  have "fl z \<le> z + z * u" using fl_upper_bound[OF z] by (simp add: u_def)
  then have "fl z * Q \<le> (z + z * u) * Q" using Q by (intro mult_right_mono) simp_all
  also have "\<dots> = of_nat f + of_nat f * u" using zQ by (simp add: algebra_simps)
  also have "\<dots> < N * Q"
  proof -
    have "0 \<le> u" by (simp add: u_def)
    then have "(of_nat f + 1) * u \<le> N * Q * u" using fle by (intro mult_right_mono)
    then have "of_nat f * u < 1" using NQu by (simp add: algebra_simps u_def)
    then show ?thesis using fle by linarith
  qed
  finally have "fl z * Q < N * Q" .
  then have "fl z < N" using Q by simp
  then have "fl z < of_int (int n)" by (simp add: N_def)
  then have "\<lfloor>fl z\<rfloor> < int n" by (simp only: floor_less_iff)
  then show ?thesis by (simp add: z_def Q_def)
qed

lemma floor_at_count:
  assumes P: "1 \<le> P" and n: "1 \<le> n" "n < 2 ^ 32"
  shows "\<lfloor>fl (of_nat (n * nat P) / of_int P)\<rfloor> = int n"
proof -
  have "(of_nat (n * nat P) :: rat) / of_int P = of_int (int n)" using P by simp
  moreover have "fl (of_int (int n)) = of_int (int n)"
  proof (rule fl_of_int)
    show "0 < int n" using n by simp
    have "int n < 2 ^ 32" using n(2) by (metis of_nat_less_iff of_nat_numeral of_nat_power)
    then show "int n < 2 ^ 53" by simp
  qed
  ultimately show ?thesis by simp
qed

text \<open>
  Claim C10, as stated, fails in the double arithmetic of the code. A narration of 100000
  samples at 24000 Hz (the rate of \<open>decodePCM\<close>) has the duration \<open>fl (100000 / 24000)\<close>;
  with 5 scenes the code computes \<open>totalFrames = 126\<close> and \<open>framesPerScene = 25\<close>, so
  \<open>totalFrames > sceneCount * framesPerScene\<close>, and for the last frame, 125,
  \<open>floor(frame / framesPerScene)\<close> is 5 and the clamp changes it to 4.
\<close>

theorem clamp_engages_under_rounding:
  "totalFrames (fl (100000 / 24000)) = 126 \<and>
   framesPerScene (fl (100000 / 24000)) 5 = Some 25 \<and>
   \<not> totalFrames (fl (100000 / 24000)) \<le> 5 * 25 \<and>
   \<lfloor>fl (of_nat 125 / of_int 25)\<rfloor> = 5 \<and>
   newScene 125 25 5 = Some 4"
  by code_simp

text \<open>
  Claim C10, amended. For a narration of up to \<open>2 ^ 40\<close> seconds and fewer than
  \<open>2 ^ 32\<close> scenes (the bound of a JavaScript array),
  \<open>totalFrames \<le> sceneCount * framesPerScene + 1\<close>; for every frame below
  \<open>sceneCount * framesPerScene\<close> the clamp leaves \<open>floor(frame / framesPerScene)\<close> as
  it is; and for the one frame that rounding can add, \<open>sceneCount * framesPerScene\<close>,
  the floor is \<open>sceneCount\<close> and the clamp gives \<open>sceneCount - 1\<close>.
\<close>

theorem clamp_moves_only_the_frame_past_the_last_scene:
  assumes "0 < dur" and "dur \<le> 2 ^ 40" and "1 \<le> n" and "n < 2 ^ 32"
  shows "\<exists>P. framesPerScene dur n = Some P \<and>
           totalFrames dur \<le> int n * P + 1 \<and>
           (\<forall>f. int f < int n * P \<longrightarrow> newScene f P n = Some \<lfloor>fl (of_nat f / of_int P)\<rfloor>) \<and>
           \<lfloor>fl (of_nat (n * nat P) / of_int P)\<rfloor> = int n \<and>
           newScene (n * nat P) P n = Some (int n - 1)"
proof -
  from framesPerScene_pos[OF assms(1) assms(3)] obtain P
    where P: "framesPerScene dur n = Some P" "1 \<le> P" by blast
  have nz: "P \<noteq> 0" using P(2) by simp
  have gap: "totalFrames dur \<le> int n * P + 1"
    using frames_gap[OF assms(1,2,3) P(1)] .
  have "of_nat n * (of_int P :: rat) < 2 ^ 47"
    using frames_product_bound[OF assms P(1)] .
  then have b: "of_nat n * (of_int P :: rat) < 2 ^ 53" by simp
  have below: "newScene f P n = Some \<lfloor>fl (of_nat f / of_int P)\<rfloor>" if "int f < int n * P" for f
    using floor_below_count[OF P(2) b that] by (simp add: newScene_Some[OF nz])
  have at: "\<lfloor>fl (of_nat (n * nat P) / of_int P)\<rfloor> = int n"
    using floor_at_count[OF P(2) assms(3,4)] .
  have "newScene (n * nat P) P n = Some (int n - 1)"
    using at by (simp only: newScene_Some[OF nz]) simp
  with P(1) gap below at show ?thesis by blast
qed

theorem clamp_moves_only_the_frame_past_the_last_scene_witness:
  "framesPerScene (fl (100000 / 24000)) 5 = Some 25 \<and>
   totalFrames (fl (100000 / 24000)) \<le> 5 * 25 + 1 \<and>
   newScene 124 25 5 = Some \<lfloor>fl (124 / 25)\<rfloor> \<and>
   newScene (5 * 25) 25 5 = Some 4"
proof -
  have fp: "framesPerScene (fl (100000 / 24000)) 5 = Some 25" by code_simp
  have h1: "0 < fl (100000 / 24000)" by code_simp
  have h2: "fl (100000 / 24000) \<le> 2 ^ 40" by code_simp
  from clamp_moves_only_the_frame_past_the_last_scene[OF h1 h2, of 5]
  obtain P where P: "framesPerScene (fl (100000 / 24000)) 5 = Some P"
    "totalFrames (fl (100000 / 24000)) \<le> int 5 * P + 1"
    "\<forall>f. int f < int 5 * P \<longrightarrow> newScene f P 5 = Some \<lfloor>fl (of_nat f / of_int P)\<rfloor>"
    "newScene (5 * nat P) P 5 = Some (int 5 - 1)" by auto
  have P25: "P = 25" using P(1) fp by simp
  have "newScene 124 25 5 = Some \<lfloor>fl (of_nat 124 / of_int 25)\<rfloor>"
    using P(3) unfolding P25 by (rule allE[of _ 124]) simp
  then show ?thesis using fp P(2,4) unfolding P25 by simp
qed

section \<open>The scene timeline\<close>

lemma window_start: "fst (sceneWindowFor i D n) = of_nat i * D / of_nat n"
  by (simp add: sceneWindowFor_def Let_def)

lemma window_end: "1 \<le> n \<Longrightarrow> snd (sceneWindowFor i D n) = of_nat (Suc i) * D / of_nat n"
  by (simp add: sceneWindowFor_def Let_def field_simps)

lemma window_index:
  assumes n: "1 \<le> n" and D: "0 < D"
  shows "in_window t (sceneWindowFor i D n) \<longleftrightarrow> \<lfloor>t * of_nat n / D\<rfloor> = int i"
proof -
  have N: "(0::rat) < of_nat n" using n by simp
  have a: "of_nat i * D / of_nat n \<le> t \<longleftrightarrow> of_int (int i) \<le> t * of_nat n / D"
    using N D by (simp add: field_simps)
  have b: "t < of_nat (Suc i) * D / of_nat n \<longleftrightarrow> t * of_nat n / D < of_int (int i) + 1"
    using N D by (simp add: field_simps)
  show ?thesis
    unfolding in_window_def window_start window_end[OF n] a b floor_eq_iff by simp
qed

lemma window_cover:
  assumes n: "1 \<le> n" and D: "0 < D"
  shows "(0 \<le> t \<and> t < D) = (\<exists>i<n. in_window t (sceneWindowFor i D n))"
proof
  assume t: "0 \<le> t \<and> t < D"
  let ?q = "t * of_nat n / D"
  have N: "(0::rat) < of_nat n" using n by simp
  have q0: "0 \<le> ?q" using t D N by simp
  have "?q < of_nat n" using t D N by (simp add: field_simps)
  then have "?q < of_int (int n)" by simp
  then have qn: "\<lfloor>?q\<rfloor> < int n" by (simp only: floor_less_iff)
  have f0: "0 \<le> \<lfloor>?q\<rfloor>" using q0 by simp
  have "nat \<lfloor>?q\<rfloor> < n" using qn f0 by linarith
  moreover have "in_window t (sceneWindowFor (nat \<lfloor>?q\<rfloor>) D n)"
    using f0 by (simp add: window_index[OF n D])
  ultimately show "\<exists>i<n. in_window t (sceneWindowFor i D n)" by blast
next
  assume "\<exists>i<n. in_window t (sceneWindowFor i D n)"
  then obtain i where i: "i < n" "in_window t (sceneWindowFor i D n)" by blast
  have N: "(0::rat) < of_nat n" using n by simp
  have lo: "of_nat i * D / of_nat n \<le> t" and hi: "t < of_nat (Suc i) * D / of_nat n"
    using i(2) by (simp_all add: in_window_def window_start window_end[OF n])
  have "0 \<le> of_nat i * D / of_nat n" using D by simp
  then have t0: "0 \<le> t" using lo by linarith
  have "(of_nat (Suc i) :: rat) \<le> of_nat n" using i(1) by (simp only: of_nat_le_iff)
  then have "of_nat (Suc i) * D \<le> of_nat n * D" using D by (intro mult_right_mono) simp_all
  then have "of_nat (Suc i) * D / of_nat n \<le> D" using N by (simp add: field_simps)
  then show "0 \<le> t \<and> t < D" using t0 hi by linarith
qed

lemma resolve_end:
  assumes n: "1 \<le> n" and D: "0 < D"
  shows "resolve D n D = (n - 1, 1)"
proof -
  have N: "(0::rat) < of_nat n" using n by simp
  have q: "D / (D / of_nat n) = of_int (int n)" using D N by simp
  have i: "min (nat \<lfloor>D / (D / of_nat n)\<rfloor>) (n - 1) = n - 1"
    unfolding q floor_of_int by simp
  have "of_nat (n - 1) = (of_nat n :: rat) - 1" using n by (simp add: of_nat_diff)
  then have "(D - of_nat (n - 1) * D / of_nat n) / (D / of_nat n) = 1"
    using D N by (simp add: field_simps)
  then show ?thesis
    unfolding resolve_def Let_def i window_start by simp
qed

text \<open>
  Claim C1. For \<open>sceneCount \<ge> 1\<close> and \<open>totalDuration > 0\<close>, the windows of the even
  split start at 0, each ends where the next starts, the last ends at
  \<open>totalDuration\<close>, a time lies in \<open>[0, totalDuration)\<close> exactly when it lies in the
  window of some scene, no time lies in two windows, and
  \<open>resolve(totalDuration) = (sceneCount - 1, 1)\<close>.
\<close>

theorem scene_windows_partition_timeline:
  assumes "1 \<le> sceneCount" and "0 < totalDuration"
  shows "fst (sceneWindowFor 0 totalDuration sceneCount) = 0 \<and>
    (\<forall>i. snd (sceneWindowFor i totalDuration sceneCount) =
            fst (sceneWindowFor (Suc i) totalDuration sceneCount)) \<and>
    snd (sceneWindowFor (sceneCount - 1) totalDuration sceneCount) = totalDuration \<and>
    (\<forall>t. (0 \<le> t \<and> t < totalDuration) =
            (\<exists>i<sceneCount. in_window t (sceneWindowFor i totalDuration sceneCount))) \<and>
    (\<forall>t i j. in_window t (sceneWindowFor i totalDuration sceneCount) \<and>
               in_window t (sceneWindowFor j totalDuration sceneCount) \<longrightarrow> i = j) \<and>
    resolve totalDuration sceneCount totalDuration = (sceneCount - 1, 1)"
proof -
  note n = assms(1) and D = assms(2)
  have N: "(0::rat) < of_nat sceneCount" using n by simp
  have a: "fst (sceneWindowFor 0 totalDuration sceneCount) = 0" by (simp add: window_start)
  have b: "snd (sceneWindowFor i totalDuration sceneCount) =
           fst (sceneWindowFor (Suc i) totalDuration sceneCount)" for i
    by (simp only: window_start window_end[OF n])
  have "Suc (sceneCount - 1) = sceneCount" using n by simp
  then have c: "snd (sceneWindowFor (sceneCount - 1) totalDuration sceneCount) = totalDuration"
    using N by (simp only: window_end[OF n]) simp
  have e: "i = j" if "in_window t (sceneWindowFor i totalDuration sceneCount)"
    "in_window t (sceneWindowFor j totalDuration sceneCount)" for t i j
    using that by (simp add: window_index[OF n D])
  show ?thesis
    using a b c window_cover[OF n D] e resolve_end[OF n D] by blast
qed

theorem scene_windows_partition_timeline_witness:
  "sceneWindowFor 0 10 2 = (0, 5) \<and> sceneWindowFor 1 10 2 = (5, 10) \<and>
   (\<exists>i<2. in_window 7 (sceneWindowFor i 10 2)) \<and> resolve 10 2 10 = (1, 1)"
proof -
  have h1: "(1::nat) \<le> 2" by simp
  have h2: "(0::rat) < 10" by simp
  have w: "sceneWindowFor 0 10 2 = (0, 5) \<and> sceneWindowFor 1 10 2 = (5, 10)"
    by (simp add: sceneWindowFor_def)
  have "(0 \<le> (7::rat) \<and> (7::rat) < 10) = (\<exists>i<2. in_window 7 (sceneWindowFor i 10 2))"
    using scene_windows_partition_timeline[OF h1 h2] by blast
  moreover have "resolve 10 2 10 = (2 - 1, 1)"
    using scene_windows_partition_timeline[OF h1 h2] by blast
  ultimately show ?thesis using w by simp
qed

section \<open>Stopping audio sources\<close>

lemma try_stop_cases:
  "try_stop b i s =
     (if i < length (sources s) \<and> status (sources s ! i) = Started
      then emit (SourceStop i) (s\<lparr>sources := (sources s)[i := (sources s ! i)\<lparr>status := Stopped\<rparr>]\<rparr>)
      else s)"
  by (simp add: try_stop_def stop_source_def split: src_status.splits)

lemma try_stop_fields [simp]:
  "contexts (try_stop b i s) = contexts s"
  "recorders (try_stop b i s) = recorders s"
  "length (sources (try_stop b i s)) = length (sources s)"
  by (simp_all add: try_stop_cases emit_def)

lemma try_stop_base [simp]:
  fixes s :: "'a player_base_scheme"
  shows "videoUrls (try_stop b i s) = videoUrls s"
    and "audioBuffer (try_stop b i s) = audioBuffer s"
    and "isPlaying (try_stop b i s) = isPlaying s"
    and "isExporting (try_stop b i s) = isExporting s"
    and "audioContextRef (try_stop b i s) = audioContextRef s"
    and "narrationSourceRef (try_stop b i s) = narrationSourceRef s"
    and "bgmSourceRef (try_stop b i s) = bgmSourceRef s"
    and "bgmBuffer (try_stop b i s) = bgmBuffer s"
  by (simp_all add: try_stop_cases emit_def)

lemma try_stop_clip [simp]:
  fixes s :: clip_player
  shows "videoRef (try_stop b i s) = videoRef s"
    and "currentVideoIndex (try_stop b i s) = currentVideoIndex s"
    and "isBgmLoading (try_stop b i s) = isBgmLoading s"
    and "isExportMenuOpen (try_stop b i s) = isExportMenuOpen s"
  by (simp_all add: try_stop_cases emit_def)

lemma try_stop_silences: "\<not> sounding (try_stop b i s) i"
  by (auto simp add: try_stop_cases sounding_def emit_def)

lemma try_stop_keeps_silent: "\<not> sounding s j \<Longrightarrow> \<not> sounding (try_stop b i s) j"
  by (auto simp add: try_stop_cases sounding_def emit_def nth_list_update)

lemma try_stop_trace:
  "\<exists>es. trace (try_stop b i s) = trace s @ es \<and> set es \<subseteq> range SourceStop"
  by (simp add: try_stop_cases emit_def)

lemma try_stop_idem: "try_stop b i (try_stop b i s) = try_stop b i s"
  by (simp add: try_stop_cases emit_def)

lemma stopAudio_refs [simp]:
  "narrationSourceRef (stopAudio b s) = None" "bgmSourceRef (stopAudio b s) = None"
  by (simp_all add: stopAudio_def Let_def split: option.splits)

lemma stopAudio_fields [simp]:
  "isPlaying (stopAudio b s) = isPlaying s"
  "isExporting (stopAudio b s) = isExporting s"
  "videoRef (stopAudio b s) = videoRef s"
  "currentVideoIndex (stopAudio b s) = currentVideoIndex s"
  "isBgmLoading (stopAudio b s) = isBgmLoading s"
  "isExportMenuOpen (stopAudio b s) = isExportMenuOpen s"
  "contexts (stopAudio b s) = contexts s"
  by (simp_all add: stopAudio_def Let_def split: option.splits)

lemma stopAudio_idempotent: "stopAudio b (stopAudio b s) = stopAudio b s"
  by (simp add: stopAudio_def[of b "stopAudio b s"])

lemma stopAudio_silences:
  assumes "narrationSourceRef s = Some i \<or> bgmSourceRef s = Some i"
  shows "\<not> sounding (stopAudio b s) i"
  using assms
  by (auto simp add: stopAudio_def Let_def sounding_def try_stop_cases emit_def nth_list_update
      split: option.splits)

lemma stopAudio_trace:
  "\<exists>es. trace (stopAudio b s) = trace s @ es \<and> set es \<subseteq> range SourceStop"
  by (auto simp add: stopAudio_def Let_def try_stop_cases emit_def split: option.splits)

section \<open>Starting an export from a playing state\<close>

lemma ref_pause_fields [simp]:
  "isPlaying (ref_pause s) = isPlaying s"
  "isExporting (ref_pause s) = isExporting s"
  "narrationSourceRef (ref_pause s) = narrationSourceRef s"
  "bgmSourceRef (ref_pause s) = bgmSourceRef s"
  "sources (ref_pause s) = sources s"
  "contexts (ref_pause s) = contexts s"
  "currentVideoIndex (ref_pause s) = currentVideoIndex s"
  by (simp_all add: ref_pause_def emit_def split: option.splits)

lemma ref_pause_trace:
  "\<exists>es. trace (ref_pause s) = trace s @ es \<and> set es \<subseteq> range VideoPause"
  by (simp add: ref_pause_def emit_def split: option.splits)

lemma sounding_cong:
  "sources t = sources s \<Longrightarrow> contexts t = contexts s \<Longrightarrow> sounding t i = sounding s i"
  by (simp add: sounding_def)

lemma handleExport_start_stops_playback:
  assumes "isPlaying c"
  shows "isExporting (handleExport_start b c)"
    and "\<not> isPlaying (handleExport_start b c)"
    and "narrationSourceRef (handleExport_start b c) = None"
    and "bgmSourceRef (handleExport_start b c) = None"
    and "narrationSourceRef c = Some i \<or> bgmSourceRef c = Some i \<Longrightarrow> \<not> sounding (handleExport_start b c) i"
    and "\<exists>stops. trace (handleExport_start b c) = trace c @ stops \<and>
           set stops \<subseteq> range SourceStop \<union> range VideoPause"
proof -
  define c1 where "c1 = c\<lparr>isExportMenuOpen := False, isExporting := True, exportProgress := 0\<rparr>"
  have m: "handleExport_start b c = (ref_pause (stopAudio b c1))\<lparr>isPlaying := False\<rparr>"
    using assms by (simp add: handleExport_start_def togglePlay_def c1_def)
  show "isExporting (handleExport_start b c)" by (simp add: m c1_def)
  show "\<not> isPlaying (handleExport_start b c)" by (simp add: m)
  show "narrationSourceRef (handleExport_start b c) = None" by (simp add: m)
  show "bgmSourceRef (handleExport_start b c) = None" by (simp add: m)
  show "\<not> sounding (handleExport_start b c) i"
    if "narrationSourceRef c = Some i \<or> bgmSourceRef c = Some i"
  proof -
    have "narrationSourceRef c1 = Some i \<or> bgmSourceRef c1 = Some i" using that by (simp add: c1_def)
    then have "\<not> sounding (stopAudio b c1) i" by (rule stopAudio_silences)
    moreover have "sounding (handleExport_start b c) i = sounding (stopAudio b c1) i"
      unfolding m by (rule sounding_cong) simp_all
    ultimately show ?thesis by simp
  qed
  obtain es1 where es1: "trace (stopAudio b c1) = trace c1 @ es1" "set es1 \<subseteq> range SourceStop"
    using stopAudio_trace by blast
  obtain es2 where es2: "trace (ref_pause (stopAudio b c1)) = trace (stopAudio b c1) @ es2"
    "set es2 \<subseteq> range VideoPause"
    using ref_pause_trace by blast
  have "trace c1 = trace c" by (simp add: c1_def)
  then have "trace (handleExport_start b c) = trace c @ (es1 @ es2)"
    by (simp add: m es1 es2)
  moreover have "set (es1 @ es2) \<subseteq> range SourceStop \<union> range VideoPause"
    using es1(2) es2(2) by auto
  ultimately show "\<exists>stops. trace (handleExport_start b c) = trace c @ stops \<and>
           set stops \<subseteq> range SourceStop \<union> range VideoPause" by blast
qed

lemma play_clips_trace: "trace (state_of (play_clips b n i urls s)) = trace s"
  by (induction urls arbitrary: i s) simp_all

lemma finish_clips_trace:
  "trace (state_of (case play_clips b n i urls t of
       Throw e t' \<Rightarrow> Throw e t' | Pending t' \<Rightarrow> Pending t'
     | Return t' \<Rightarrow> Return (emit Download (close_context c (recorder_stop r t'))))) =
   trace t @ (if returns (play_clips b n i urls t) then [RecorderStop r, ContextClose c, Download] else [])"
  using play_clips_trace[of b n i urls t]
  by (cases "play_clips b n i urls t")
     (simp_all add: emit_def close_context_def recorder_stop_def)

lemma handleExport_job_trace:
  "\<exists>es. trace (state_of (handleExport_job b s)) = trace s @ es"
  unfolding handleExport_job_def Let_def
  by (simp add: finish_clips_trace new_context_def createBufferSource_def start_source_def
      emit_def new_recorder_def recorder_start_def split: prod.splits)

lemma handleExport_trace:
  "\<exists>es. trace (state_of (handleExport b c)) = trace (handleExport_start b c) @ es"
proof -
  obtain es where es: "trace (state_of (handleExport_job b (handleExport_start b c))) =
      trace (handleExport_start b c) @ es"
    using handleExport_job_trace by blast
  show ?thesis
    using es unfolding handleExport_def
    by (cases "handleExport_job b (handleExport_start b c)") (simp_all add: emit_def)
qed

section \<open>How the active index moves\<close>

declare playAll_loop.simps [simp del]

lemma is_clip_video_play [simp]: "is_clip urls j (video_play i s) = is_clip urls j s"
  by (cases "i = j") (auto simp add: is_clip_def video_play_def emit_def nth_list_update)

lemma is_clip_video_pause [simp]: "is_clip urls j (video_pause i s) = is_clip urls j s"
  by (cases "i = j") (auto simp add: is_clip_def video_pause_def emit_def nth_list_update)

lemma is_clip_set_index [simp]:
  "is_clip urls j (emit e (s\<lparr>prevIndex := a, currentIndex := c\<rparr>)) = is_clip urls j s"
  by (simp add: is_clip_def emit_def)

lemma video_play_fields [simp]:
  "audioContextRef (video_play i s) = audioContextRef s"
  "currentIndex (video_play i s) = currentIndex s"
  "trace (video_play i s) = trace s @ [VideoPlay i]"
  by (simp_all add: video_play_def emit_def)

lemma video_pause_fields [simp]:
  "audioContextRef (video_pause i s) = audioContextRef s"
  "currentIndex (video_pause i s) = currentIndex s"
  "trace (video_pause i s) = trace s @ [VideoPause i]"
  by (simp_all add: video_pause_def emit_def)

lemma playAll_loop_uninterrupted:
  assumes "audioContextRef s \<noteq> None"
  shows "trace (playAll_loop (\<lambda>i s. s) urls i s) =
           trace s @ concat (map (\<lambda>j. SetIndex (int j) #
              (if is_clip urls j s then [VideoPlay j, VideoPause j] else [])) [i ..< length urls])
         \<and> currentIndex (playAll_loop (\<lambda>i s. s) urls i s) =
             (if i < length urls then int (length urls) - 1 else currentIndex s)"
  using assms
proof (induction "length urls - i" arbitrary: i s)
  case 0
  then have "\<not> i < length urls" by simp
  then show ?case by (simp add: playAll_loop.simps[of _ urls i s])
next
  case (Suc k)
  then have lt: "i < length urls" by simp
  define s1 where "s1 = emit (SetIndex (int i))
      (s\<lparr>prevIndex := (if 0 < i then int i - 1 else - 1), currentIndex := int i\<rparr>)"
  define s4 where "s4 = (if is_clip urls i s then video_pause i (video_play i s1) else s1)"
  have step: "playAll_loop (\<lambda>i s. s) urls i s = playAll_loop (\<lambda>i s. s) urls (Suc i) s4"
    using lt Suc.prems
    by (subst playAll_loop.simps) (auto simp add: Let_def s1_def s4_def)
  have ctx: "audioContextRef s4 \<noteq> None"
    using Suc.prems by (simp add: s4_def s1_def emit_def)
  have clip: "is_clip urls j s4 = is_clip urls j s" for j
    by (simp add: s4_def s1_def)
  have tr: "trace s4 = trace s @ SetIndex (int i) #
      (if is_clip urls i s then [VideoPlay i, VideoPause i] else [])"
    by (simp add: s4_def s1_def emit_def)
  have ci: "currentIndex s4 = int i" by (simp add: s4_def s1_def emit_def)
  have k: "k = length urls - Suc i" using Suc.hyps(2) by simp
  have up: "[i ..< length urls] = i # [Suc i ..< length urls]" using lt by (simp add: upt_rec)
  from Suc.hyps(1)[OF k ctx]
  show ?case
    unfolding step using lt by (auto simp add: clip tr ci up)
qed

lemma handleVideoEnded_index:
  "currentVideoIndex (handleVideoEnded s) =
     (if 1 < length (videoUrls s) then (currentVideoIndex s + 1) mod length (videoUrls s)
      else currentVideoIndex s)"
  by (simp add: handleVideoEnded_def setCurrentVideoIndex_def Let_def ref_play_def emit_def
      split: option.splits)

lemma handleVideoEnded_playing: "isPlaying (handleVideoEnded s) = isPlaying s"
  by (simp add: handleVideoEnded_def setCurrentVideoIndex_def Let_def ref_play_def emit_def
      split: option.splits)

lemma setCurrentVideoIndex_stopped:
  assumes "\<not> isPlaying s"
  shows "currentVideoIndex (setCurrentVideoIndex i s) = i"
    and "\<not> isPlaying (setCurrentVideoIndex i s)"
    and "sources (setCurrentVideoIndex i s) = sources s"
    and "contexts (setCurrentVideoIndex i s) = contexts s"
  using assms by (simp_all add: setCurrentVideoIndex_def Let_def emit_def)

lemma narration_completes_resets:
  shows "\<not> isPlaying (narration_completes b s)"
    and "currentVideoIndex (narration_completes b s) = 0"
    and "narrationSourceRef s = Some i \<or> bgmSourceRef s = Some i \<Longrightarrow> \<not> sounding (narration_completes b s) i"
proof -
  define s0 where "s0 = narration_ends s"
  define s1 where "s1 = ref_pause (s0\<lparr>isPlaying := False\<rparr>)"
  define s2 where "s2 = (case bgmSourceRef s1 of None \<Rightarrow> s1 | Some j \<Rightarrow> try_stop b j s1)"
  have r: "narration_completes b s = setCurrentVideoIndex 0 s2"
    unfolding narration_completes_def narration_onended_def Let_def s0_def s1_def s2_def ..
  have p1: "\<not> isPlaying s1" by (simp add: s1_def)
  have p2: "\<not> isPlaying s2" using p1 by (simp add: s2_def split: option.splits)
  show "\<not> isPlaying (narration_completes b s)"
    unfolding r using p2 by (rule setCurrentVideoIndex_stopped)
  show "currentVideoIndex (narration_completes b s) = 0"
    unfolding r using p2 by (rule setCurrentVideoIndex_stopped)
  show "\<not> sounding (narration_completes b s) i"
    if "narrationSourceRef s = Some i \<or> bgmSourceRef s = Some i"
  proof -
    have b0: "bgmSourceRef s1 = bgmSourceRef s"
      by (simp add: s1_def s0_def narration_ends_def source_ends_def split: option.splits)
    have "\<not> sounding s2 i"
    proof (cases "bgmSourceRef s = Some i")
      case True
      then show ?thesis by (simp add: s2_def b0 try_stop_silences)
    next
      case False
      with that have n: "narrationSourceRef s = Some i" by simp
      have "\<not> sounding s0 i"
        by (auto simp add: s0_def narration_ends_def n source_ends_def sounding_def)
      then have "\<not> sounding s1 i"
        by (simp add: s1_def sounding_def)
      then show ?thesis
        by (auto simp add: s2_def try_stop_keeps_silent split: option.splits)
    qed
    moreover have "sounding (narration_completes b s) i = sounding s2 i"
      unfolding r by (rule sounding_cong) (simp_all add: setCurrentVideoIndex_stopped[OF p2])
    ultimately show ?thesis by simp
  qed
qed

section \<open>Playing and exporting without a background track\<close>

lemma export_frame_Some:
  assumes "1 \<le> n" and "int f < totalFrames dur"
  shows "\<exists>fr. export_frame dur n f = Some fr"
proof -
  have "0 < totalFrames dur" using assms(2) by linarith
  then have d: "0 < dur" by (rule totalFrames_pos_duration)
  from framesPerScene_pos[OF d assms(1)] obtain fpS
    where fpS: "framesPerScene dur n = Some fpS" "1 \<le> fpS" by blast
  have nz: "fpS \<noteq> 0" using fpS(2) by simp
  have fis: "frameInScene f fpS = Some (int f smod fpS)"
    using nz by (simp add: frameInScene_def)
  from transitionProgress_range[OF transitionFrames_pos[OF fpS(2)] frameInScene_nonneg[OF fpS(2), of f]]
  obtain p where p: "transitionProgress (int f smod fpS) (transitionFrames fpS) = Some p" by blast
  show ?thesis
    by (simp add: export_frame_def fpS(1) fis p newScene_Some[OF nz])
qed

lemma render_frames_Some:
  assumes "1 \<le> n" and "\<forall>f\<in>set fs. int f < totalFrames dur"
  shows "\<exists>frs. render_frames dur n fs = Some frs"
  using assms(2)
proof (induction fs)
  case Nil
  show ?case by simp
next
  case (Cons f fs)
  then obtain frs where "render_frames dur n fs = Some frs" by auto
  moreover obtain fr where "export_frame dur n f = Some fr"
    using export_frame_Some[OF assms(1), of f dur] Cons.prems by auto
  ultimately show ?case by simp
qed

lemma render_all_frames:
  assumes "1 \<le> n"
  shows "\<exists>frs. render_frames dur n [0 ..< nat (totalFrames dur)] = Some frs"
  by (rule render_frames_Some[OF assms]) auto

lemma render_frames_nth:
  assumes "render_frames d n fs = Some frs"
  shows "length frs = length fs \<and> (\<forall>k<length fs. export_frame d n (fs ! k) = Some (frs ! k))"
  using assms
proof (induction fs arbitrary: frs)
  case Nil
  then show ?case by simp
next
  case (Cons f fs)
  then obtain fr rest where fr: "export_frame d n f = Some fr"
    and rest: "render_frames d n fs = Some rest" and frs: "frs = fr # rest"
    by (auto split: option.splits)
  from Cons.IH[OF rest] show ?case
    using fr frs by (auto simp add: nth_Cons split: nat.splits)
qed

lemma reset_videos_events: "set (snd (reset_videos i vs)) \<subseteq> range VideoPause"
  by (induction i vs rule: reset_videos.induct) (auto split: prod.splits)

lemma loadBgm_failure:
  assumes "r = FetchFailed \<or> r = DecodeFailed"
  shows "bgmBuffer (loadBgm r s) = bgmBuffer s"
    and "trace (loadBgm r s) = trace s @ [ConsoleError]"
    and "sources (loadBgm r s) = sources s"
    and "recorders (loadBgm r s) = recorders s"
    and "audioBuffer (loadBgm r s) = audioBuffer s"
    and "videoUrls (loadBgm r s) = videoUrls s"
    and "isPlaying (loadBgm r s) = isPlaying s"
    and "isExporting (loadBgm r s) = isExporting s"
    and "audioContextRef (loadBgm r s) = audioContextRef s"
    and "narrationSourceRef (loadBgm r s) = narrationSourceRef s"
    and "bgmSourceRef (loadBgm r s) = bgmSourceRef s"
  using assms by (auto simp add: loadBgm_def emit_def new_context_def)

lemma scene_player_plays_narration_only:
  fixes s :: player
  assumes "narrationSourceRef s = None" "bgmSourceRef s = None" "audioContextRef s = None"
    and "bgmBuffer s = None" and "sources s = []" and "Alert \<notin> set (trace s)"
  shows "\<exists>p. playAll_start b s = Return p \<and> isPlaying p \<and> map asset (sources p) = [Narration] \<and>
           sounding p 0 \<and> bgmSourceRef p = None \<and> Alert \<notin> set (trace p)"
proof -
  obtain vs es where r: "reset_videos 0 (videoRefs s) = (vs, es)" by (cases "reset_videos 0 (videoRefs s)")
  have es: "Alert \<notin> set es" using reset_videos_events[of 0 "videoRefs s"] r by auto
  show ?thesis
    using assms es
    by (simp add: playAll_start_def stopAll_def optional_stop_def optional_close_def r Let_def
        new_context_def createBufferSource_def start_source_def emit_def sounding_def nth_append)
qed

lemma scene_player_exports_narration_only:
  fixes s :: player
  assumes "audioBuffer s = Some buf" "videoUrls s \<noteq> []" "bgmBuffer s = None" "sources s = []"
    and "recorders s = []"
    and "vp9_supported b" "canvas_2d b" "list_all (decodes b) (videoUrls s)"
  shows "\<exists>q. exportToMp4 b s = Return q \<and>
           sources q = [\<lparr>asset = Narration, looped = False, gain = narrationVolume s,
                          dest = CaptureSink, ctx = length (contexts s), status = Started\<rparr>] \<and>
           recorders q = [Inactive] \<and>
           trace q = trace s @ [RecorderStart 0, SourceStart 0, RecorderStop 0,
                                ContextClose (length (contexts s)), Download] \<and>
           render_frames (duration buf) (length (videoUrls s)) [0 ..< nat (totalFrames (duration buf))]
             = Some (frames q) \<and>
           \<not> isExporting q"
proof -
  have "1 \<le> length (videoUrls s)" using assms(2) by (cases "videoUrls s") auto
  from render_all_frames[OF this, of "duration buf"] obtain frs
    where frs: "render_frames (duration buf) (length (videoUrls s)) [0 ..< nat (totalFrames (duration buf))] = Some frs"
    by blast
  show ?thesis
    using assms frs
    by (simp add: exportToMp4_def export_job_def Let_def new_context_def createBufferSource_def
        start_source_def emit_def new_recorder_def recorder_start_def recorder_stop_def
        close_context_def)
qed

lemma play_clips_all_decode:
  assumes "list_all (decodes b) urls"
  shows "\<exists>t. play_clips b n i urls s = Return t \<and> trace t = trace s \<and> sources t = sources s \<and>
           recorders t = recorders s \<and> contexts t = contexts s \<and>
           isExporting t = isExporting s \<and>
           exportProgress t =
             (if urls = [] then exportProgress s
              else \<lfloor>js_mul (fl (of_nat (i + length urls) / of_nat n)) 100 + 1 / 2\<rfloor>)"
  using assms
proof (induction urls arbitrary: i s)
  case Nil
  show ?case by simp
next
  case (Cons url urls)
  then have "list_all (decodes b) urls" and d: "decodes b url" by simp_all
  from Cons.IH[OF this(1), of "Suc i"
      "s\<lparr>exportProgress := \<lfloor>js_mul (fl (of_nat (Suc i) / of_nat n)) 100 + 1 / 2\<rfloor>\<rparr>"]
  show ?case using d by (cases "urls = []") auto
qed

lemma full_progress:
  assumes "0 < n"
  shows "\<lfloor>js_mul (fl (of_nat n / of_nat n)) 100 + 1 / 2\<rfloor> = 100"
proof -
  have "(of_nat n :: rat) / of_nat n = 1" using assms by simp
  moreover have "fl (1 * 100) = 100" using fl_of_int[of 100] by simp
  moreover have "\<lfloor>(100 :: rat) + 1 / 2\<rfloor> = 100" by (simp add: floor_eq_iff)
  ultimately show ?thesis by (simp add: js_mul_def)
qed

lemma clip_player_plays_narration_only:
  assumes "\<not> isPlaying c" "\<not> isBgmLoading c" "\<not> isExporting c" "audioBuffer c = Some buf"
    and "bgmBuffer c = None" and "audioContextRef c = None" and "bgmSourceRef c = None"
    and "sources c = []" and "Alert \<notin> set (trace c)"
  shows "isPlaying (toggle_button b c) \<and> map asset (sources (toggle_button b c)) = [Narration] \<and>
         sounding (toggle_button b c) 0 \<and> bgmSourceRef (toggle_button b c) = None \<and>
         Alert \<notin> set (trace (toggle_button b c))"
  using assms
  by (simp add: toggle_button_def togglePlay_def playAudio_def ref_play_def Let_def new_context_def
      createBufferSource_def start_source_def emit_def sounding_def nth_append split: option.splits)

lemma clip_player_exports_narration_only:
  assumes "\<not> isPlaying c" "audioBuffer c = Some buf" "bgmBuffer c = None" "sources c = []"
    and "recorders c = []"
    and "exportFormat c = mp4 \<and> mp4_supported b \<or> vp9_supported b"
    and "canvas_2d b" "list_all (decodes b) (videoUrls c)"
  shows "\<exists>q. handleExport b c = Return q \<and>
           sources q = [\<lparr>asset = Narration, looped = False, gain = 1,
                          dest = CaptureSink, ctx = length (contexts c), status = Started\<rparr>] \<and>
           recorders q = [Inactive] \<and>
           trace q = trace c @ [SourceStart 0, RecorderStart 0, RecorderStop 0,
                                ContextClose (length (contexts c)), Download] \<and>
           (videoUrls c \<noteq> [] \<longrightarrow> exportProgress q = 100) \<and>
           \<not> isExporting q"
proof -
  define s5 where "s5 = recorder_start (length (recorders c))
     (snd (new_recorder (start_source 0 (snd (createBufferSource Narration False 1 CaptureSink (length (contexts c))
       (snd (new_context (handleExport_start b c))))))))"
  have st: "handleExport_start b c = c\<lparr>isExportMenuOpen := False, isExporting := True, exportProgress := 0\<rparr>"
    using assms(1) by (simp add: handleExport_start_def)
  have urls: "videoUrls s5 = videoUrls c"
    by (simp add: s5_def st new_context_def createBufferSource_def start_source_def emit_def
        new_recorder_def recorder_start_def)
  from play_clips_all_decode[of b "videoUrls s5" "length (videoUrls s5)" 0 s5] assms(8)
  obtain t where t: "play_clips b (length (videoUrls s5)) 0 (videoUrls s5) s5 = Return t"
    "trace t = trace s5" "sources t = sources s5" "recorders t = recorders s5"
    "exportProgress t =
       (if videoUrls c = [] then exportProgress s5
        else \<lfloor>js_mul (fl (of_nat (length (videoUrls c)) / of_nat (length (videoUrls c)))) 100 + 1 / 2\<rfloor>)"
    by (auto simp add: urls)
  have pr: "videoUrls c \<noteq> [] \<longrightarrow> exportProgress t = 100"
    using t(5) full_progress[of "length (videoUrls c)"] by simp
  have job: "handleExport_job b (handleExport_start b c) =
      Return (emit Download (close_context (length (contexts c)) (recorder_stop (length (recorders c)) t)))"
    using assms t(1)
    by (auto simp add: handleExport_job_def st Let_def s5_def new_context_def createBufferSource_def
        start_source_def emit_def new_recorder_def recorder_start_def)
  show ?thesis
    unfolding handleExport_def job
    using assms t(2,3,4) pr
    by (simp add: s5_def st new_context_def createBufferSource_def
        start_source_def emit_def new_recorder_def recorder_start_def recorder_stop_def close_context_def)
qed

lemma playAll_loop_quiet:
  "sources (playAll_loop (\<lambda>i s. s) urls i s) = sources s \<and>
   contexts (playAll_loop (\<lambda>i s. s) urls i s) = contexts s \<and>
   (Alert \<in> set (trace (playAll_loop (\<lambda>i s. s) urls i s)) \<longleftrightarrow> Alert \<in> set (trace s))"
proof (induction "length urls - i" arbitrary: i s)
  case 0
  then have "\<not> i < length urls" by simp
  then show ?case by (simp add: playAll_loop.simps[of _ urls i s])
next
  case (Suc k)
  then have lt: "i < length urls" by simp
  show ?case
  proof (cases "audioContextRef s = None")
    case True
    then show ?thesis using lt by (simp add: playAll_loop.simps[of _ urls i s])
  next
    case False
    define s1 where "s1 = emit (SetIndex (int i))
        (s\<lparr>prevIndex := (if 0 < i then int i - 1 else - 1), currentIndex := int i\<rparr>)"
    define s4 where "s4 = (if is_clip urls i s then video_pause i (video_play i s1) else s1)"
    have step: "playAll_loop (\<lambda>i s. s) urls i s = playAll_loop (\<lambda>i s. s) urls (Suc i) s4"
      using lt False
      by (subst playAll_loop.simps) (auto simp add: Let_def s1_def s4_def)
    have keep: "sources s4 = sources s" "contexts s4 = contexts s"
      "Alert \<in> set (trace s4) \<longleftrightarrow> Alert \<in> set (trace s)"
      by (auto simp add: s4_def s1_def emit_def video_play_def video_pause_def)
    have k: "k = length urls - Suc i" using Suc.hyps(2) by simp
    from Suc.hyps(1)[OF k, of s4] show ?thesis
      unfolding step by (simp add: keep)
  qed
qed

lemma scene_player_playback_narration_only:
  fixes s :: player
  assumes "audioBuffer s = Some buf"
    and "narrationSourceRef s = None" "bgmSourceRef s = None" "audioContextRef s = None"
    and "bgmBuffer s = None" and "sources s = []" and "Alert \<notin> set (trace s)"
  shows "\<exists>t. playAll b (\<lambda>i s. s) s = Return t \<and> map asset (sources t) = [Narration] \<and>
           sounding t 0 \<and> Alert \<notin> set (trace t)"
proof -
  from scene_player_plays_narration_only[OF assms(2-7), of b]
  obtain p where p: "playAll_start b s = Return p" "map asset (sources p) = [Narration]"
    "sounding p 0" "Alert \<notin> set (trace p)" by auto
  show ?thesis
    using assms(1) p playAll_loop_quiet[of "videoUrls p" 0 p]
    by (simp add: playAll_def sounding_def)
qed

section \<open>Where stopAll returns, and where the export waits\<close>

lemma optional_stop_lenient:
  assumes "\<not> repeat_stop_throws b"
    and "\<And>i. r = Some i \<Longrightarrow> i < length (sources s) \<and> status (sources s ! i) \<noteq> Unstarted"
  shows "\<exists>t. optional_stop b r s = Inr t \<and> length (sources t) = length (sources s) \<and>
           (\<forall>j. status (sources s ! j) \<noteq> Unstarted \<longrightarrow> status (sources t ! j) \<noteq> Unstarted)"
proof (cases r)
  case None
  then show ?thesis by (simp add: optional_stop_def)
next
  case (Some i)
  with assms(2) have i: "i < length (sources s)" "status (sources s ! i) \<noteq> Unstarted" by simp_all
  show ?thesis
    using assms(1) i
    by (cases "status (sources s ! i)")
       (auto simp add: optional_stop_def Some stop_source_def emit_def nth_list_update)
qed

lemma optional_stop_refs:
  fixes s :: "'a player_base_scheme"
  assumes "optional_stop b r s = Inr t"
  shows "bgmSourceRef t = bgmSourceRef s" and "narrationSourceRef t = narrationSourceRef s"
  using assms
  by (auto simp add: optional_stop_def stop_source_def emit_def
      split: option.splits if_splits src_status.splits)

lemma stopAll_returns_where_stop_is_lenient:
  assumes "\<not> repeat_stop_throws b"
    and "\<And>i. narrationSourceRef s = Some i \<or> bgmSourceRef s = Some i \<Longrightarrow>
            i < length (sources s) \<and> status (sources s ! i) \<noteq> Unstarted"
  shows "returns (stopAll b s)"
proof -
  from optional_stop_lenient[OF assms(1), of "narrationSourceRef s" s] assms(2)
  obtain s1 where s1: "optional_stop b (narrationSourceRef s) s = Inr s1"
    "length (sources s1) = length (sources s)"
    "\<forall>j. status (sources s ! j) \<noteq> Unstarted \<longrightarrow> status (sources s1 ! j) \<noteq> Unstarted"
    by blast
  have b1: "bgmSourceRef s1 = bgmSourceRef s" using optional_stop_refs(1)[OF s1(1)] .
  have "\<And>i. bgmSourceRef s1 = Some i \<Longrightarrow> i < length (sources s1) \<and> status (sources s1 ! i) \<noteq> Unstarted"
    using assms(2) s1(2,3) b1 by auto
  from optional_stop_lenient[OF assms(1) this]
  obtain s2 where s2: "optional_stop b (bgmSourceRef s1) s1 = Inr s2" by blast
  show ?thesis
    by (simp add: stopAll_def s1(1) s2 Let_def split: prod.splits)
qed

lemma exportToMp4_waits_for_ever:
  assumes "audioBuffer s = Some buf" and "videoUrls s \<noteq> []" and "vp9_supported b"
    and "\<not> list_all (decodes b) (videoUrls s)"
  shows "pending (exportToMp4 b s)"
    and "isExporting (state_of (exportToMp4 b s))"
    and "Alert \<in> set (trace (state_of (exportToMp4 b s))) \<longleftrightarrow> Alert \<in> set (trace s)"
    and "Download \<in> set (trace (state_of (exportToMp4 b s))) \<longleftrightarrow> Download \<in> set (trace s)"
  using assms
  by (auto simp add: exportToMp4_def export_job_def Let_def new_context_def createBufferSource_def
      start_source_def emit_def new_recorder_def recorder_start_def split: prod.splits)

section \<open>Export and playback\<close>

text \<open>
  Claim C4, as stated, fails for the scene player. While \<open>isPlaying\<close> is true a click on
  its download button is ignored (the button is disabled), so the attempt to start an
  export invokes no stop-playback; and \<open>exportToMp4\<close> itself contains none: called in
  the playing state it runs the whole export, stops no source and pauses no clip, and the
  narration of the playback still sounds when the file is downloaded.
\<close>

theorem exportToMp4_has_no_stop_playback:
  "isPlaying scenes_playing \<and> sounding scenes_playing 0 \<and>
   download_button modern scenes_playing = Return scenes_playing \<and>
   (case exportToMp4 modern scenes_playing of
      Return q \<Rightarrow>
        trace q = trace scenes_playing @
          [SourceStart 3, RecorderStart 0, SourceStart 2, RecorderStop 0, ContextClose 2, Download] \<and>
        isPlaying q \<and> sounding q 0
    | Throw e q \<Rightarrow> False
    | Pending q \<Rightarrow> False)"
  by code_simp

text \<open>
  Claim C4, amended. Export and playback exclude each other in both players, by different
  means. In the single-clip player \<open>handleExport\<close>, started while \<open>isPlaying\<close> is true,
  first stops playback: before its \<open>try\<close> block the playing flag is cleared, both source
  refs are emptied, the sources they held no longer sound, the only events so far are
  source stops and clip pauses, and every event of the export job comes after them. In the
  scene player a click on the download button while \<open>isPlaying\<close> is true changes
  nothing. In both players a click on a play control while \<open>isExporting\<close> is true
  changes nothing.
\<close>

theorem export_and_playback_exclude_each_other:
  "(isPlaying c \<longrightarrow>
      isExporting (handleExport_start b c) \<and> \<not> isPlaying (handleExport_start b c) \<and>
      narrationSourceRef (handleExport_start b c) = None \<and>
      bgmSourceRef (handleExport_start b c) = None \<and>
      (\<forall>i. narrationSourceRef c = Some i \<or> bgmSourceRef c = Some i \<longrightarrow>
           \<not> sounding (handleExport_start b c) i) \<and>
      (\<exists>stops es. trace (handleExport_start b c) = trace c @ stops \<and>
           set stops \<subseteq> range SourceStop \<union> range VideoPause \<and>
           trace (state_of (handleExport b c)) = trace c @ stops @ es)) \<and>
   (isPlaying s \<longrightarrow> download_button b s = Return s) \<and>
   (isExporting s \<longrightarrow> play_button b during s = Return s \<and> play_overlay b during s = Return s) \<and>
   (isExporting c \<longrightarrow> toggle_button b c = c \<and> toggle_overlay b c = c)"
proof -
  have A: "\<exists>stops es. trace (handleExport_start b c) = trace c @ stops \<and>
           set stops \<subseteq> range SourceStop \<union> range VideoPause \<and>
           trace (state_of (handleExport b c)) = trace c @ stops @ es" if pl: "isPlaying c"
  proof -
    obtain stops where st: "trace (handleExport_start b c) = trace c @ stops"
      "set stops \<subseteq> range SourceStop \<union> range VideoPause"
      using handleExport_start_stops_playback(6)[OF pl] by blast
    obtain es where "trace (state_of (handleExport b c)) = trace (handleExport_start b c) @ es"
      using handleExport_trace by blast
    then have "trace (state_of (handleExport b c)) = trace c @ stops @ es" by (simp add: st(1))
    with st show ?thesis by blast
  qed
  have B: "download_button b s = Return s" if "isPlaying s"
    using that by (simp add: download_button_def)
  have C: "play_button b during s = Return s \<and> play_overlay b during s = Return s" if "isExporting s"
    using that by (simp add: play_button_def play_overlay_def)
  have D: "toggle_button b c = c \<and> toggle_overlay b c = c" if "isExporting c"
    using that by (simp add: toggle_button_def toggle_overlay_def)
  have S: "isExporting (handleExport_start b c) \<and> \<not> isPlaying (handleExport_start b c) \<and>
      narrationSourceRef (handleExport_start b c) = None \<and>
      bgmSourceRef (handleExport_start b c) = None \<and>
      (\<forall>i. narrationSourceRef c = Some i \<or> bgmSourceRef c = Some i \<longrightarrow>
           \<not> sounding (handleExport_start b c) i)" if pl: "isPlaying c"
    using handleExport_start_stops_playback(1-5)[OF pl] by blast
  show ?thesis
    using S A B C D by blast
qed

theorem export_and_playback_exclude_each_other_witness:
  "isPlaying clips_playing \<and> sounding clips_playing 0 \<and> sounding clips_playing 1 \<and>
   \<not> isPlaying (handleExport_start modern clips_playing) \<and>
   \<not> sounding (handleExport_start modern clips_playing) 0 \<and>
   \<not> sounding (handleExport_start modern clips_playing) 1 \<and>
   download_button modern scenes_playing = Return scenes_playing \<and>
   isExporting (state_of (exportToMp4 broken_clip example_scenes)) \<and>
   play_button modern (\<lambda>i s. s) (state_of (exportToMp4 broken_clip example_scenes)) =
     Return (state_of (exportToMp4 broken_clip example_scenes)) \<and>
   isExporting (handleExport_start modern clips_playing) \<and>
   toggle_button modern (handleExport_start modern clips_playing) =
     handleExport_start modern clips_playing"
proof -
  have p: "isPlaying clips_playing" by code_simp
  have n: "narrationSourceRef clips_playing = Some 0" by code_simp
  have g: "bgmSourceRef clips_playing = Some 1" by code_simp
  have z: "sounding clips_playing 0 \<and> sounding clips_playing 1" by code_simp
  have q: "isPlaying scenes_playing" by code_simp
  have e: "isExporting (state_of (exportToMp4 broken_clip example_scenes))" by code_simp
  note t1 = export_and_playback_exclude_each_other
    [of clips_playing modern scenes_playing "\<lambda>i s. s"]
  note t2 = export_and_playback_exclude_each_other
    [of "handleExport_start modern clips_playing" modern
        "state_of (exportToMp4 broken_clip example_scenes)" "\<lambda>i s. s"]
  have x: "isExporting (handleExport_start modern clips_playing)" using t1 p by blast
  show ?thesis using t1 t2 p n g z q e x by blast
qed

section \<open>The end of the narration\<close>

text \<open>
  Claim C5 holds for the single-clip player (\<open>narration_completes_resets\<close>: the handler
  of lines 120 to 128 clears the playing flag, sets the index to 0 and stops the background
  source), and fails for the scene player. \<open>playAll\<close> has no handler for the end of the
  narration; when its loop over the scenes is through it only clears the playing flag.
  For the example player with three scenes and a background track: after the run and the
  end of the narration the index is 2, not 0, and the background source, never stopped,
  still sounds.
\<close>

theorem playAll_completion_leaves_background_playing:
  "returns (playAll modern (\<lambda>i s. s) example_scenes) \<and>
   \<not> isPlaying (narration_ends (state_of (playAll modern (\<lambda>i s. s) example_scenes))) \<and>
   currentIndex (narration_ends (state_of (playAll modern (\<lambda>i s. s) example_scenes))) = 2 \<and>
   \<not> sounding (narration_ends (state_of (playAll modern (\<lambda>i s. s) example_scenes))) 0 \<and>
   bgmSourceRef (narration_ends (state_of (playAll modern (\<lambda>i s. s) example_scenes))) = Some 1 \<and>
   sounding (narration_ends (state_of (playAll modern (\<lambda>i s. s) example_scenes))) 1 \<and>
   SourceStop 1 \<notin> set (trace (narration_ends (state_of (playAll modern (\<lambda>i s. s) example_scenes))))"
  by code_simp

section \<open>An asset that fails to decode\<close>

text \<open>
  Claim C6 fails for both players. In the scene player the promise of an asset settles on
  \<open>onload\<close> or \<open>onloadeddata\<close> only: with a clip that does not decode,
  \<open>exportToMp4\<close> stays suspended for ever (\<open>exportToMp4_waits_for_ever\<close>), the
  exporting flag stays set, no message is shown, and the recorder and the two capture
  sources keep running. In the single-clip
  player \<open>onerror\<close> rejects: the job aborts with one alert, no download, and the
  exporting flag cleared, but the recorder is left recording and the capture context
  running with both of its sources.
\<close>

theorem export_stays_suspended_on_failed_asset:
  "(case exportToMp4 broken_clip example_scenes of
      Pending t \<Rightarrow>
        isExporting t \<and> Alert \<notin> set (trace t) \<and> recorders t = [Recording] \<and>
        sounding t 0 \<and> sounding t 1
    | Return t \<Rightarrow> False
    | Throw e t \<Rightarrow> False) \<and>
   (case handleExport broken_clip example_clips of
      Return t \<Rightarrow>
        trace t = trace example_clips @
          [SourceStart 0, SourceStart 1, RecorderStart 0, ConsoleError, Alert] \<and>
        \<not> isExporting t \<and> recorders t = [Recording] \<and> sounding t 0 \<and> sounding t 1
    | Throw e t \<Rightarrow> False
    | Pending t \<Rightarrow> False)"
  by code_simp

section \<open>Stopping twice\<close>

text \<open>
  Claim C7 holds for \<open>stopAudio\<close> of the single-clip player, which wraps each \<open>stop()\<close>
  in \<open>try\<close> and empties the refs (\<open>stopAudio_idempotent\<close>, and it cannot throw), and
  fails for \<open>stopAll\<close> of the scene player, which calls \<open>stop()\<close> unguarded and keeps
  the refs. In a browser where a second \<open>stop()\<close> throws, \<open>stopAll\<close> after
  \<open>stopAll\<close> throws \<open>InvalidStateError\<close>; and since \<open>playAll\<close> begins with
  \<open>stopAll\<close>, so does the next click on PLAY, and playback does not start. Where a
  second \<open>stop()\<close> is allowed, \<open>stopAll\<close> returns
  (\<open>stopAll_returns_where_stop_is_lenient\<close>).
\<close>

theorem stopAll_again_throws_where_stop_is_strict:
  "returns (stopAll legacy (state_of (playAll_start legacy example_scenes))) \<and>
   \<not> isPlaying (state_of (stopAll legacy (state_of (playAll_start legacy example_scenes)))) \<and>
   thrown (stopAll legacy (state_of (stopAll legacy (state_of (playAll_start legacy example_scenes))))) =
     Some InvalidStateError \<and>
   thrown (play_button legacy (\<lambda>i s. s)
      (state_of (stopAll legacy (state_of (playAll_start legacy example_scenes))))) =
     Some InvalidStateError \<and>
   \<not> isPlaying (state_of (play_button legacy (\<lambda>i s. s)
      (state_of (stopAll legacy (state_of (playAll_start legacy example_scenes))))))"
  by code_simp

section \<open>A background track that fails to load\<close>

text \<open>
  Claim C8. When the fetch or the decoding of the background track fails, both players
  log the error to the console and keep no background buffer; no alert is shown. From the
  component as mounted, playback then starts with the narration as its only source, and
  the narration still sounds, alone, after the scenes have been run through. With assets
  that decode, a 2d canvas and a format the browser records (\<open>vp9\<close> for the scene
  player; \<open>mp4\<close> or \<open>vp9\<close> for the single-clip player, which asks for \<open>mp4\<close> where
  it is supported), the export makes one source, the narration: not looped, at gain 1,
  connected to the capture sink and started. The events of the export are the start of
  the recorder and of the narration (in the order of each version), the stop of the
  recorder, the close of the narration's context and the download, and nothing else: no
  alert. The scene player has drawn every frame of the narration's length, the
  single-clip player has played every clip (the progress is 100).
\<close>

theorem background_failure_leaves_narration_only:
  assumes "r = FetchFailed \<or> r = DecodeFailed"
  shows "bgmBuffer (loadBgm r (mount urls (Some buf))) = None \<and>
     Alert \<notin> set (trace (loadBgm r (mount urls (Some buf)))) \<and>
     (\<exists>p. playAll_start b (loadBgm r (mount urls (Some buf))) = Return p \<and> isPlaying p \<and>
          map asset (sources p) = [Narration] \<and> sounding p 0 \<and> Alert \<notin> set (trace p)) \<and>
     (\<exists>t. playAll b (\<lambda>i s. s) (loadBgm r (mount urls (Some buf))) = Return t \<and>
          map asset (sources t) = [Narration] \<and> sounding t 0 \<and> Alert \<notin> set (trace t)) \<and>
     (urls \<noteq> [] \<and> vp9_supported b \<and> canvas_2d b \<and> list_all (decodes b) urls \<longrightarrow>
        (\<exists>q. exportToMp4 b (loadBgm r (mount urls (Some buf))) = Return q \<and>
           map asset (sources q) = [Narration] \<and> map dest (sources q) = [CaptureSink] \<and>
           map status (sources q) = [Started] \<and> map looped (sources q) = [False] \<and>
           map gain (sources q) = [1] \<and> recorders q = [Inactive] \<and>
           trace q = [ConsoleError, RecorderStart 0, SourceStart 0, RecorderStop 0,
                      ContextClose (ctx (sources q ! 0)), Download] \<and>
           length (frames q) = nat (totalFrames (duration buf)) \<and>
           (\<forall>k<length (frames q). export_frame (duration buf) (length urls) k = Some (frames q ! k)) \<and>
           Download \<in> set (trace q) \<and> Alert \<notin> set (trace q))) \<and>
     bgmBuffer (loadBgm' r (mount' b urls (Some buf))) = None \<and>
     Alert \<notin> set (trace (loadBgm' r (mount' b urls (Some buf)))) \<and>
     isPlaying (toggle_button b (loadBgm' r (mount' b urls (Some buf)))) \<and>
     map asset (sources (toggle_button b (loadBgm' r (mount' b urls (Some buf))))) = [Narration] \<and>
     sounding (toggle_button b (loadBgm' r (mount' b urls (Some buf)))) 0 \<and>
     Alert \<notin> set (trace (toggle_button b (loadBgm' r (mount' b urls (Some buf))))) \<and>
     ((mp4_supported b \<or> vp9_supported b) \<and> canvas_2d b \<and> list_all (decodes b) urls \<longrightarrow>
        (\<exists>q. handleExport b (loadBgm' r (mount' b urls (Some buf))) = Return q \<and>
           map asset (sources q) = [Narration] \<and> map dest (sources q) = [CaptureSink] \<and>
           map status (sources q) = [Started] \<and> map looped (sources q) = [False] \<and>
           map gain (sources q) = [1] \<and> recorders q = [Inactive] \<and>
           trace q = [ConsoleError, SourceStart 0, RecorderStart 0, RecorderStop 0,
                      ContextClose (ctx (sources q ! 0)), Download] \<and>
           (urls \<noteq> [] \<longrightarrow> exportProgress q = 100) \<and>
           Download \<in> set (trace q) \<and> Alert \<notin> set (trace q)))"
proof -
  define s where "s = loadBgm r (mount urls (Some buf))"
  define c where "c = loadBgm' r (mount' b urls (Some buf))"
  note f = loadBgm_failure[OF assms]
  have s1: "bgmBuffer s = None" "Alert \<notin> set (trace s)" "sources s = []"
    "narrationSourceRef s = None" "bgmSourceRef s = None" "audioContextRef s = None"
    "audioBuffer s = Some buf" "videoUrls s = urls" "recorders s = []"
    "trace s = [ConsoleError]"
    by (simp_all add: s_def f mount_def)
  have nv: "narrationVolume s = 1"
    using assms by (auto simp add: s_def loadBgm_def emit_def new_context_def mount_def)
  have c1: "bgmBuffer c = None" "Alert \<notin> set (trace c)" "sources c = []"
    "bgmSourceRef c = None" "audioContextRef c = None"
    "audioBuffer c = Some buf" "videoUrls c = urls"
    "\<not> isPlaying c" "\<not> isBgmLoading c" "\<not> isExporting c" "recorders c = []"
    "trace c = [ConsoleError]"
    by (simp_all add: c_def loadBgm'_def f mount'_def)
  have fm: "exportFormat c = (if mp4_supported b then mp4 else webm)"
    using assms by (auto simp add: c_def loadBgm'_def loadBgm_def emit_def new_context_def mount'_def)
  have P: "\<exists>p. playAll_start b s = Return p \<and> isPlaying p \<and>
          map asset (sources p) = [Narration] \<and> sounding p 0 \<and> Alert \<notin> set (trace p)"
    using scene_player_plays_narration_only[OF s1(4,5,6,1,3,2), of b] by auto
  have R: "\<exists>t. playAll b (\<lambda>i s. s) s = Return t \<and>
          map asset (sources t) = [Narration] \<and> sounding t 0 \<and> Alert \<notin> set (trace t)"
    using scene_player_playback_narration_only[OF s1(7,4,5,6,1,3,2), of b] by auto
  have E: "\<exists>q. exportToMp4 b s = Return q \<and>
           map asset (sources q) = [Narration] \<and> map dest (sources q) = [CaptureSink] \<and>
           map status (sources q) = [Started] \<and> map looped (sources q) = [False] \<and>
           map gain (sources q) = [1] \<and> recorders q = [Inactive] \<and>
           trace q = [ConsoleError, RecorderStart 0, SourceStart 0, RecorderStop 0,
                      ContextClose (ctx (sources q ! 0)), Download] \<and>
           length (frames q) = nat (totalFrames (duration buf)) \<and>
           (\<forall>k<length (frames q). export_frame (duration buf) (length urls) k = Some (frames q ! k)) \<and>
           Download \<in> set (trace q) \<and> Alert \<notin> set (trace q)"
    if h: "urls \<noteq> [] \<and> vp9_supported b \<and> canvas_2d b \<and> list_all (decodes b) urls"
  proof -
    from h s1(8) have u: "videoUrls s \<noteq> []" "vp9_supported b" "canvas_2d b"
      "list_all (decodes b) (videoUrls s)" by simp_all
    from scene_player_exports_narration_only[OF s1(7) u(1) s1(1,3,9) u(2,3,4)]
    obtain q where q: "exportToMp4 b s = Return q"
      "sources q = [\<lparr>asset = Narration, looped = False, gain = narrationVolume s,
                     dest = CaptureSink, ctx = length (contexts s), status = Started\<rparr>]"
      "recorders q = [Inactive]"
      "trace q = trace s @ [RecorderStart 0, SourceStart 0, RecorderStop 0,
                            ContextClose (length (contexts s)), Download]"
      "render_frames (duration buf) (length (videoUrls s)) [0 ..< nat (totalFrames (duration buf))]
         = Some (frames q)"
      by blast
    from render_frames_nth[OF q(5)]
    have fr: "length (frames q) = nat (totalFrames (duration buf))"
      "\<forall>k<length (frames q). export_frame (duration buf) (length urls) k = Some (frames q ! k)"
      by (simp_all add: s1(8))
    have tr: "trace q = [ConsoleError, RecorderStart 0, SourceStart 0, RecorderStop 0,
                      ContextClose (ctx (sources q ! 0)), Download]"
      by (simp add: q(2,4) s1(10))
    have "Download \<in> set (trace q)" "Alert \<notin> set (trace q)"
      by (simp_all add: q(4) s1(10))
    then show ?thesis using q(1,3) fr tr by (simp add: q(2) nv)
  qed
  have Q: "isPlaying (toggle_button b c) \<and> map asset (sources (toggle_button b c)) = [Narration] \<and>
         sounding (toggle_button b c) 0 \<and> Alert \<notin> set (trace (toggle_button b c))"
    using clip_player_plays_narration_only[OF c1(8,9,10,6,1,5,4,3,2), of b] by auto
  have F: "\<exists>q. handleExport b c = Return q \<and>
           map asset (sources q) = [Narration] \<and> map dest (sources q) = [CaptureSink] \<and>
           map status (sources q) = [Started] \<and> map looped (sources q) = [False] \<and>
           map gain (sources q) = [1] \<and> recorders q = [Inactive] \<and>
           trace q = [ConsoleError, SourceStart 0, RecorderStart 0, RecorderStop 0,
                      ContextClose (ctx (sources q ! 0)), Download] \<and>
           (urls \<noteq> [] \<longrightarrow> exportProgress q = 100) \<and>
           Download \<in> set (trace q) \<and> Alert \<notin> set (trace q)"
    if h: "(mp4_supported b \<or> vp9_supported b) \<and> canvas_2d b \<and> list_all (decodes b) urls"
  proof -
    from h fm c1(7) have u: "exportFormat c = mp4 \<and> mp4_supported b \<or> vp9_supported b"
      "canvas_2d b" "list_all (decodes b) (videoUrls c)" by auto
    from clip_player_exports_narration_only[OF c1(8,6,1,3,11) u]
    obtain q where q: "handleExport b c = Return q"
      "sources q = [\<lparr>asset = Narration, looped = False, gain = 1,
                     dest = CaptureSink, ctx = length (contexts c), status = Started\<rparr>]"
      "recorders q = [Inactive]"
      "trace q = trace c @ [SourceStart 0, RecorderStart 0, RecorderStop 0,
                            ContextClose (length (contexts c)), Download]"
      "videoUrls c \<noteq> [] \<longrightarrow> exportProgress q = 100"
      by blast
    have tr: "trace q = [ConsoleError, SourceStart 0, RecorderStart 0, RecorderStop 0,
                      ContextClose (ctx (sources q ! 0)), Download]"
      by (simp add: q(2,4) c1(12))
    have "Download \<in> set (trace q)" "Alert \<notin> set (trace q)"
      by (simp_all add: q(4) c1(12))
    then show ?thesis using q(1,3,5) tr c1(7) by (simp add: q(2))
  qed
  show ?thesis
    using s1(1,2) c1(1,2) P R E Q F unfolding s_def c_def by blast
qed

theorem background_failure_leaves_narration_only_witness:
  "bgmBuffer (loadBgm FetchFailed (mount [''a.mp4''] (Some \<lparr>duration = 1 / 10\<rparr>))) = None \<and>
   (\<exists>q. exportToMp4 modern (loadBgm FetchFailed (mount [''a.mp4''] (Some \<lparr>duration = 1 / 10\<rparr>))) = Return q \<and>
      map asset (sources q) = [Narration] \<and> map dest (sources q) = [CaptureSink] \<and>
      map status (sources q) = [Started] \<and>
      trace q = [ConsoleError, RecorderStart 0, SourceStart 0, RecorderStop 0,
                 ContextClose (ctx (sources q ! 0)), Download] \<and>
      length (frames q) = nat (totalFrames (1 / 10)) \<and>
      Download \<in> set (trace q) \<and> Alert \<notin> set (trace q)) \<and>
   isPlaying (toggle_button modern (loadBgm' FetchFailed (mount' modern [''a.mp4''] (Some \<lparr>duration = 1 / 10\<rparr>)))) \<and>
   (\<exists>q. handleExport modern (loadBgm' FetchFailed (mount' modern [''a.mp4''] (Some \<lparr>duration = 1 / 10\<rparr>))) = Return q \<and>
      map asset (sources q) = [Narration] \<and> map dest (sources q) = [CaptureSink] \<and>
      map status (sources q) = [Started] \<and>
      trace q = [ConsoleError, SourceStart 0, RecorderStart 0, RecorderStop 0,
                 ContextClose (ctx (sources q ! 0)), Download] \<and>
      exportProgress q = 100 \<and>
      Download \<in> set (trace q) \<and> Alert \<notin> set (trace q)) \<and>
   (\<exists>q. handleExport mp4_only (loadBgm' DecodeFailed (mount' mp4_only [''a.mp4''] (Some \<lparr>duration = 1 / 10\<rparr>))) = Return q \<and>
      map asset (sources q) = [Narration] \<and> map status (sources q) = [Started] \<and>
      trace q = [ConsoleError, SourceStart 0, RecorderStart 0, RecorderStop 0,
                 ContextClose (ctx (sources q ! 0)), Download])"
proof -
  have h: "FetchFailed = FetchFailed \<or> FetchFailed = DecodeFailed" by simp
  have h': "DecodeFailed = FetchFailed \<or> DecodeFailed = DecodeFailed" by simp
  have k: "(mp4_supported mp4_only \<or> vp9_supported mp4_only) \<and> canvas_2d mp4_only \<and>
           list_all (decodes mp4_only) [''a.mp4'']"
    by (simp add: mp4_only_def)
  have m: "[''a.mp4''] \<noteq> [] \<and> vp9_supported modern \<and> canvas_2d modern \<and>
           list_all (decodes modern) [''a.mp4'']"
    by (simp add: modern_def)
  then have m': "(mp4_supported modern \<or> vp9_supported modern) \<and> canvas_2d modern \<and>
           list_all (decodes modern) [''a.mp4'']"
    by blast
  have n: "[''a.mp4''] \<noteq> []" by simp
  have d: "duration \<lparr>duration = 1 / 10\<rparr> = 1 / 10" by simp
  show ?thesis
    using background_failure_leaves_narration_only
      [OF h, of "[''a.mp4'']" "\<lparr>duration = 1 / 10\<rparr>" modern] m m' n
      background_failure_leaves_narration_only
      [OF h', of "[''a.mp4'']" "\<lparr>duration = 1 / 10\<rparr>" mp4_only] k
    unfolding d by auto
qed

section \<open>The active index over time\<close>

text \<open>
  Claim C9, as stated, fails for the single-clip player: \<open>handleVideoEnded\<close> advances
  the index modulo the number of clips. With two clips the second end of a clip takes the
  index from 1 back to 0 while the player is playing and the narration still sounds: a
  wrap to 0 that is no reset at the end of the narration.
\<close>

theorem clip_index_wraps_while_narration_plays:
  "currentVideoIndex (handleVideoEnded clips_playing) = 1 \<and>
   currentVideoIndex (handleVideoEnded (handleVideoEnded clips_playing)) = 0 \<and>
   isPlaying (handleVideoEnded (handleVideoEnded clips_playing)) \<and>
   narrationSourceRef (handleVideoEnded (handleVideoEnded clips_playing)) = Some 0 \<and>
   sounding (handleVideoEnded (handleVideoEnded clips_playing)) 0"
  by code_simp

text \<open>
  Claim C9, amended. In the scene player a run of the \<open>playAll\<close> loop that no other
  handler interrupts sets the index to each scene in turn, in increasing order, and where
  the scene is a clip plays it and pauses it before the next index is set. In the
  single-clip player the end of a clip moves the index to the next clip, and from the last
  clip back to 0, whether or not the narration has ended, and leaves the playing flag as
  it is; the end of the narration sets the index to 0 and clears the playing flag.
\<close>

theorem active_index_advances_scene_by_scene:
  "(audioContextRef s \<noteq> None \<longrightarrow>
      trace (playAll_loop (\<lambda>i s. s) urls i s) =
        trace s @ concat (map (\<lambda>j. SetIndex (int j) #
           (if is_clip urls j s then [VideoPlay j, VideoPause j] else [])) [i ..< length urls])) \<and>
   currentVideoIndex (handleVideoEnded c) =
     (if 1 < length (videoUrls c) then (currentVideoIndex c + 1) mod length (videoUrls c)
      else currentVideoIndex c) \<and>
   isPlaying (handleVideoEnded c) = isPlaying c \<and>
   currentVideoIndex (narration_completes b c) = 0 \<and>
   \<not> isPlaying (narration_completes b c)"
  using playAll_loop_uninterrupted[of s urls i] handleVideoEnded_index[of c]
    handleVideoEnded_playing[of c] narration_completes_resets(1,2)[of b c]
  by blast

theorem active_index_advances_scene_by_scene_witness:
  "trace (playAll_loop (\<lambda>i s. s) (videoUrls scenes_playing) 0 scenes_playing) =
     trace scenes_playing @
       [SetIndex 0, VideoPlay 0, VideoPause 0, SetIndex 1, SetIndex 2, VideoPlay 2, VideoPause 2] \<and>
   currentVideoIndex (handleVideoEnded clips_playing) = 1 \<and>
   currentVideoIndex (narration_completes modern clips_playing) = 0"
proof -
  have a: "audioContextRef scenes_playing \<noteq> None" by code_simp
  have r: "concat (map (\<lambda>j. SetIndex (int j) #
           (if is_clip (videoUrls scenes_playing) j scenes_playing then [VideoPlay j, VideoPause j] else []))
             [0 ..< length (videoUrls scenes_playing)]) =
       [SetIndex 0, VideoPlay 0, VideoPause 0, SetIndex 1, SetIndex 2, VideoPlay 2, VideoPause 2]"
    by code_simp
  have v: "(if 1 < length (videoUrls clips_playing)
            then (currentVideoIndex clips_playing + 1) mod length (videoUrls clips_playing)
            else currentVideoIndex clips_playing) = 1"
    by code_simp
  note t = active_index_advances_scene_by_scene
    [of scenes_playing "videoUrls scenes_playing" 0 clips_playing modern]
  have "trace (playAll_loop (\<lambda>i s. s) (videoUrls scenes_playing) 0 scenes_playing) =
     trace scenes_playing @ concat (map (\<lambda>j. SetIndex (int j) #
           (if is_clip (videoUrls scenes_playing) j scenes_playing then [VideoPlay j, VideoPause j] else []))
             [0 ..< length (videoUrls scenes_playing)])"
    using t a by blast
  moreover have "currentVideoIndex (handleVideoEnded clips_playing) = 1"
    using t v by simp
  moreover have "currentVideoIndex (narration_completes modern clips_playing) = 0"
    using t by blast
  ultimately show ?thesis unfolding r by blast
qed

end
